theory Spec2Isabelle
  imports Complex_Main "HOL-Library.Multiset"
begin

section \<open>JavaScript values, strings and numbers\<close>

text \<open>
  The library is written in TypeScript; its validators guard against values that are not
  strings, so arguments are JavaScript values. Numbers are restricted to integer values
  (fractional numbers, NaN and the infinities are not part of the embedding); \<open>JObject\<close>
  is a plain object. Strings are lists of characters.
\<close>

datatype jsval = JUndefined | JNull | JBoolean bool | JNumber int | JString string | JObject

datatype error = TypeError | RangeError

text \<open>\<open>!v\<close> is \<open>\<not> truthy v\<close>; \<open>typeof v === 'string'\<close> is \<open>is_string v\<close>.\<close>

fun truthy :: "jsval \<Rightarrow> bool" where
  "truthy JUndefined = False"
| "truthy JNull = False"
| "truthy (JBoolean b) = b"
| "truthy (JNumber n) = (n \<noteq> 0)"
| "truthy (JString s) = (s \<noteq> [])"
| "truthy JObject = True"

fun is_string :: "jsval \<Rightarrow> bool" where
  "is_string (JString s) = True"
| "is_string v = False"

fun the_string :: "jsval \<Rightarrow> string" where
  "the_string (JString s) = s"
| "the_string v = []"

definition is_digit :: "char \<Rightarrow> bool" where
  "is_digit c = (c \<in> set ''0123456789'')"

text \<open>\<open>parseInt(c, 10)\<close> and \<open>+c\<close> of a one-character string holding a decimal digit.\<close>

definition digit_val :: "char \<Rightarrow> nat" where
  "digit_val c = of_char c - 48"

definition digit_char :: "nat \<Rightarrow> char" where
  "digit_char d = ''0123456789'' ! (d mod 10)"

text \<open>\<open>String(n)\<close> of an integer-valued number (below \<open>10^21\<close> in magnitude).\<close>

function show_nat :: "nat \<Rightarrow> string" where
  "show_nat n = (if n < 10 then [digit_char n] else show_nat (n div 10) @ [digit_char (n mod 10)])"
  by pat_completeness auto
termination
  by (relation "measure id") auto

declare show_nat.simps [simp del]

definition show_int :: "int \<Rightarrow> string" where
  "show_int i = (if i < 0 then CHR ''-'' # show_nat (nat (- i)) else show_nat (nat i))"

fun to_String :: "jsval \<Rightarrow> string" where
  "to_String JUndefined = ''undefined''"
| "to_String JNull = ''null''"
| "to_String (JBoolean b) = (if b then ''true'' else ''false'')"
| "to_String (JNumber n) = show_int n"
| "to_String (JString s) = s"
| "to_String JObject = ''[object Object]''"

text \<open>The remainder operator \<open>%\<close> of JavaScript on integers: the sign follows the dividend.\<close>

definition js_rem :: "int \<Rightarrow> int \<Rightarrow> int" where
  "js_rem a b = sgn a * (\<bar>a\<bar> mod \<bar>b\<bar>)"

text \<open>\<open>s[i]\<close>: the one-character string at index \<open>i\<close>, or \<open>undefined\<close>.\<close>

definition index_char :: "string \<Rightarrow> nat \<Rightarrow> string option" where
  "index_char s i = (if i < length s then Some [s ! i] else None)"

text \<open>\<open>s.charAt(i)\<close>: the one-character string at index \<open>i\<close>, or the empty string.\<close>

definition charAt :: "string \<Rightarrow> nat \<Rightarrow> string" where
  "charAt s i = (if i < length s then [s ! i] else [])"

text \<open>\<open>s.padStart(n, c)\<close> for a one-character pad string.\<close>

definition padStart :: "string \<Rightarrow> nat \<Rightarrow> char \<Rightarrow> string" where
  "padStart s n c = replicate (n - length s) c @ s"

subsection \<open>Regular expressions\<close>

text \<open>
  The patterns of the library are anchored at both ends and use character classes,
  concatenation, optional parts and repetition only, so \<open>pattern.test(s)\<close> is membership
  of \<open>s\<close> in a regular language, decided here by derivatives.
\<close>

datatype rx = Zero | One | Chars string | Seq rx rx | Alt rx rx | Star rx

fun nullable :: "rx \<Rightarrow> bool" where
  "nullable Zero = False"
| "nullable One = True"
| "nullable (Chars cs) = False"
| "nullable (Seq r s) = (nullable r \<and> nullable s)"
| "nullable (Alt r s) = (nullable r \<or> nullable s)"
| "nullable (Star r) = True"

fun deriv :: "char \<Rightarrow> rx \<Rightarrow> rx" where
  "deriv c Zero = Zero"
| "deriv c One = Zero"
| "deriv c (Chars cs) = (if c \<in> set cs then One else Zero)"
| "deriv c (Seq r s) =
     (if nullable r then Alt (Seq (deriv c r) s) (deriv c s) else Seq (deriv c r) s)"
| "deriv c (Alt r s) = Alt (deriv c r) (deriv c s)"
| "deriv c (Star r) = Seq (deriv c r) (Star r)"

definition rx_test :: "rx \<Rightarrow> string \<Rightarrow> bool" where
  "rx_test r s = nullable (foldl (\<lambda>q c. deriv c q) r s)"

definition Opt :: "rx \<Rightarrow> rx" where
  "Opt r = Alt One r"

definition Plus :: "rx \<Rightarrow> rx" where
  "Plus r = Seq r (Star r)"

definition Seqs :: "rx list \<Rightarrow> rx" where
  "Seqs rs = foldr Seq rs One"

definition rx_digit :: rx where
  "rx_digit = Chars ''0123456789''"


section \<open>Helpers\<close>

text \<open>
  Modelled from the spec: the helper \<open>onlyNumbers\<close> (module \<open>helpers\<close>) is not among the
  sources. Section 4.1: given any input, it returns the ordered sequence of ASCII digit
  characters the input contains, preserving order and discarding all other characters; it
  is total and never fails. For a value that is not a string the characters are those of
  its string conversion.
\<close>

definition onlyNumbers :: "jsval \<Rightarrow> string" where
  "onlyNumbers v = filter is_digit (to_String v)"

text \<open>
  Modelled from the spec: the helper \<open>isLastChar\<close> (module \<open>helpers\<close>) is not among the
  sources. Section 4.2: a separator is left out when its position is the last character
  of the string; \<open>isLastChar(index, input)\<close> says whether \<open>index\<close> is the position of the
  last character of \<open>input\<close>.
\<close>

definition isLastChar :: "nat \<Rightarrow> string \<Rightarrow> bool" where
  "isLastChar index input = (int index = int (length input) - 1)"

text \<open>
  Modelled from the spec: the helper \<open>generateChecksum\<close> (module \<open>helpers\<close>) is not among
  the sources. Section 4.3: each digit is multiplied by its assigned weight and the
  products are summed. The call sites pass either a weight table, aligned left to right
  with the digits, or a number \<open>w\<close>, as in \<open>generateChecksum(baseCPF, 10)\<close>: the digit at
  index \<open>i\<close> then has weight \<open>w - i\<close>, so that with \<open>w - 1\<close> digits the weights count
  \<open>2, 3, ...\<close> from the right. A digit beyond the end of a weight table has no weight and
  the sum is not a number (\<open>None\<close>).
\<close>

datatype weight = Scalar int | Table "int list"

fun weight_at :: "weight \<Rightarrow> nat \<Rightarrow> int option" where
  "weight_at (Scalar w) i = Some (w - int i)"
| "weight_at (Table ws) i = (if i < length ws then Some (ws ! i) else None)"

definition checksum_step :: "weight \<Rightarrow> int option \<Rightarrow> nat \<times> char \<Rightarrow> int option" where
  "checksum_step weight acc p =
     (case acc of
        None \<Rightarrow> None
      | Some a \<Rightarrow>
          (case weight_at weight (fst p) of
             None \<Rightarrow> None
           | Some w \<Rightarrow> Some (a + int (digit_val (snd p)) * w)))"

definition generateChecksum :: "string \<Rightarrow> weight \<Rightarrow> int option" where
  "generateChecksum base weight =
     foldl (checksum_step weight) (Some 0) (enumerate 0 (onlyNumbers (JString base)))"

text \<open>
  The expression \<open>String(mod < 2 ? 0 : 11 - mod)\<close> with \<open>mod = checksum % 11\<close>, which the
  CPF and CNPJ modules repeat at every check digit. A checksum that is not a number
  gives the string \<open>NaN\<close>.
\<close>

definition check_digit_string :: "int option \<Rightarrow> string" where
  "check_digit_string checksum =
     (case checksum of
        None \<Rightarrow> ''NaN''
      | Some c \<Rightarrow> (let m = js_rem c 11 in show_int (if m < 2 then 0 else 11 - m)))"

text \<open>
  Modelled from the spec: the helper \<open>generateRandomNumber\<close> (module \<open>helpers\<close>) is not
  among the sources. Section 4.5: the generators draw random digits; \<open>generateRandomNumber(n)\<close>
  is a string of \<open>n\<close> of them. The random source is explicit: \<open>rnd k\<close> is the \<open>k\<close>-th value
  drawn (read modulo 10), and a call that starts at draw \<open>k\<close> returns the position of the
  next draw.
\<close>

type_synonym random_source = "nat \<Rightarrow> nat"

definition generateRandomNumber :: "nat \<Rightarrow> random_source \<Rightarrow> nat \<Rightarrow> string \<times> nat" where
  "generateRandomNumber len rnd k = (map (\<lambda>j. digit_char (rnd (k + j))) [0..<len], k + len)"

section \<open>Reference tables\<close>

text \<open>
  Modelled from the spec: the modules \<open>common/states\<close> and \<open>common/cities\<close> (the tables
  \<open>STATES\<close>, \<open>STATES_DATA\<close> and \<open>CITIES_DATA\<close>) are not among the sources. Section 6: a
  static table maps each state code to its full name, numeric code, list of telephone
  area codes and list of city names. The tables are parameters of the embedding; they are
  association lists in the order of the object's keys.
\<close>

record StateData =
  numeric_code :: nat
  state_name :: string
  areaCodes :: "nat list"

record tables =
  STATES :: "string list"
  STATES_DATA :: "(string \<times> StateData) list"
  CITIES_DATA :: "(string \<times> string list) list"

section \<open>CPF\<close>

definition cpf_LENGTH :: nat where
  "cpf_LENGTH = 11"

definition cpf_DOT_INDEXES :: "nat list" where
  "cpf_DOT_INDEXES = [2, 5]"

definition cpf_HYPHEN_INDEXES :: "nat list" where
  "cpf_HYPHEN_INDEXES = [8]"

definition cpf_RESERVED_NUMBERS :: "string list" where
  "cpf_RESERVED_NUMBERS =
     [''00000000000'', ''11111111111'', ''22222222222'', ''33333333333'', ''44444444444'',
      ''55555555555'', ''66666666666'', ''77777777777'', ''88888888888'', ''99999999999'']"

definition cpf_CHECK_DIGITS_INDEXES :: "nat list" where
  "cpf_CHECK_DIGITS_INDEXES = [9, 10]"

record FormatCpfOptions =
  pad :: "bool option"

definition cpf_format_step :: "string \<Rightarrow> string \<Rightarrow> nat \<times> char \<Rightarrow> string" where
  "cpf_format_step digits acc p =
     (let i = fst p; result = acc @ [snd p] in
      if \<not> isLastChar i digits then
        (if i \<in> set cpf_DOT_INDEXES then result @ ''.''
         else if i \<in> set cpf_HYPHEN_INDEXES then result @ ''-''
         else result)
      else result)"

definition cpf_format :: "jsval \<Rightarrow> FormatCpfOptions \<Rightarrow> string" where
  "cpf_format cpf options =
     (let digits0 = onlyNumbers cpf;
          digits = (if pad options = Some True then padStart digits0 cpf_LENGTH (CHR ''0'')
                    else digits0)
      in foldl (cpf_format_step digits) [] (enumerate 0 (take cpf_LENGTH digits)))"

text \<open>
  \<open>generate(state?)\<close>: the argument is \<open>None\<close> when omitted. Reading \<open>.code\<close> of a state
  that \<open>STATES\<close> lists but \<open>STATES_DATA\<close> lacks is a TypeError.
\<close>

definition cpf_finish :: "string \<Rightarrow> string" where
  "cpf_finish baseCPF =
     (let firstCheckDigit = check_digit_string (generateChecksum baseCPF (Scalar 10));
          secondCheckDigit =
            check_digit_string (generateChecksum (baseCPF @ firstCheckDigit) (Scalar 11))
      in baseCPF @ firstCheckDigit @ secondCheckDigit)"

definition cpf_generate :: "tables \<Rightarrow> string option \<Rightarrow> random_source \<Rightarrow> error + string" where
  "cpf_generate t state rnd =
     (case (case state of None \<Rightarrow> None
            | Some s \<Rightarrow> if s \<noteq> [] \<and> s \<in> set (STATES t) then Some s else None) of
        Some s \<Rightarrow>
          (case map_of (STATES_DATA t) s of
             None \<Rightarrow> Inl TypeError
           | Some d \<Rightarrow>
               Inr (cpf_finish
                      (fst (generateRandomNumber (cpf_LENGTH - 3) rnd 0) @
                       show_nat (numeric_code d))))
      | None \<Rightarrow>
          (let stateCode = generateRandomNumber 1 rnd 0 in
           Inr (cpf_finish
                  (fst (generateRandomNumber (cpf_LENGTH - 3) rnd (snd stateCode)) @
                   fst stateCode))))"

text \<open>\<open>/^\d{3}\.?\d{3}\.?\d{3}-?\d{2}$/\<close>\<close>

definition cpf_format_rx :: rx where
  "cpf_format_rx =
     Seqs [rx_digit, rx_digit, rx_digit, Opt (Chars ''.''),
           rx_digit, rx_digit, rx_digit, Opt (Chars ''.''),
           rx_digit, rx_digit, rx_digit, Opt (Chars ''-''),
           rx_digit, rx_digit]"

definition cpf_isValidFormat :: "string \<Rightarrow> bool" where
  "cpf_isValidFormat cpf = rx_test cpf_format_rx cpf"

definition cpf_isReservedNumber :: "string \<Rightarrow> bool" where
  "cpf_isReservedNumber cpf = (cpf \<in> set cpf_RESERVED_NUMBERS)"

definition cpf_isValidChecksum :: "string \<Rightarrow> bool" where
  "cpf_isValidChecksum cpf =
     list_all
       (\<lambda>i. index_char cpf i =
              Some (check_digit_string
                      (generateChecksum (foldl (\<lambda>acc digit. acc @ [digit]) [] (take i cpf))
                         (Scalar (int i + 1)))))
       cpf_CHECK_DIGITS_INDEXES"

definition cpf_isValid :: "jsval \<Rightarrow> bool" where
  "cpf_isValid cpf =
     (if \<not> truthy cpf \<or> \<not> is_string cpf then False
      else (let digits = onlyNumbers cpf in
            cpf_isValidFormat (the_string cpf) \<and> \<not> cpf_isReservedNumber digits \<and>
            cpf_isValidChecksum digits))"

section \<open>CNPJ\<close>

definition cnpj_LENGTH :: nat where
  "cnpj_LENGTH = 14"

definition cnpj_DOT_INDEXES :: "nat list" where
  "cnpj_DOT_INDEXES = [1, 4]"

definition cnpj_SLASH_INDEXES :: "nat list" where
  "cnpj_SLASH_INDEXES = [7]"

definition cnpj_HYPHEN_INDEXES :: "nat list" where
  "cnpj_HYPHEN_INDEXES = [11]"

definition cnpj_RESERVED_NUMBERS :: "string list" where
  "cnpj_RESERVED_NUMBERS =
     [''00000000000000'', ''11111111111111'', ''22222222222222'', ''33333333333333'',
      ''44444444444444'', ''55555555555555'', ''66666666666666'', ''77777777777777'',
      ''88888888888888'', ''99999999999999'']"

definition cnpj_CHECK_DIGITS_INDEXES :: "nat list" where
  "cnpj_CHECK_DIGITS_INDEXES = [12, 13]"

definition FIRST_CHECK_DIGIT_WEIGHTS :: "int list" where
  "FIRST_CHECK_DIGIT_WEIGHTS = [5, 4, 3, 2, 9, 8, 7, 6, 5, 4, 3, 2]"

definition SECOND_CHECK_DIGIT_WEIGHTS :: "int list" where
  "SECOND_CHECK_DIGIT_WEIGHTS = [6] @ FIRST_CHECK_DIGIT_WEIGHTS"

definition cnpj_format_step :: "string \<Rightarrow> string \<Rightarrow> nat \<times> char \<Rightarrow> string" where
  "cnpj_format_step digits acc p =
     (let index = fst p; result = acc @ [snd p] in
      if \<not> isLastChar index digits then
        (if index \<in> set cnpj_DOT_INDEXES then result @ ''.''
         else if index \<in> set cnpj_SLASH_INDEXES then result @ ''/''
         else if index \<in> set cnpj_HYPHEN_INDEXES then result @ ''-''
         else result)
      else result)"

definition cnpj_format :: "jsval \<Rightarrow> FormatCpfOptions \<Rightarrow> string" where
  "cnpj_format cnpj options =
     (let digits0 = onlyNumbers cnpj;
          digits = (if pad options = Some True then padStart digits0 cnpj_LENGTH (CHR ''0'')
                    else digits0)
      in foldl (cnpj_format_step digits) [] (enumerate 0 (take cnpj_LENGTH digits)))"

definition cnpj_generate :: "random_source \<Rightarrow> string" where
  "cnpj_generate rnd =
     (let baseCNPJ = fst (generateRandomNumber (cnpj_LENGTH - 2) rnd 0);
          firstCheckDigit =
            check_digit_string (generateChecksum baseCNPJ (Table FIRST_CHECK_DIGIT_WEIGHTS));
          secondCheckDigit =
            check_digit_string
              (generateChecksum (baseCNPJ @ firstCheckDigit) (Table SECOND_CHECK_DIGIT_WEIGHTS))
      in baseCNPJ @ firstCheckDigit @ secondCheckDigit)"

text \<open>\<open>/^\d{2}\.?\d{3}\.?\d{3}\/?\d{4}-?\d{2}$/\<close>\<close>

definition cnpj_format_rx :: rx where
  "cnpj_format_rx =
     Seqs [rx_digit, rx_digit, Opt (Chars ''.''),
           rx_digit, rx_digit, rx_digit, Opt (Chars ''.''),
           rx_digit, rx_digit, rx_digit, Opt (Chars ''/''),
           rx_digit, rx_digit, rx_digit, rx_digit, Opt (Chars ''-''),
           rx_digit, rx_digit]"

definition cnpj_isValidFormat :: "string \<Rightarrow> bool" where
  "cnpj_isValidFormat cnpj = rx_test cnpj_format_rx cnpj"

definition cnpj_isReservedNumber :: "string \<Rightarrow> bool" where
  "cnpj_isReservedNumber cpf = (cpf \<in> set cnpj_RESERVED_NUMBERS)"

text \<open>
  \<open>isValidChecksum\<close> copies the first weight table and puts 6 in front of the copy when it
  reaches the last check digit index; the copy is threaded through \<open>every\<close>, which stops at
  the first index whose digit does not match.
\<close>

fun cnpj_checksum_every :: "string \<Rightarrow> int list \<Rightarrow> nat list \<Rightarrow> bool" where
  "cnpj_checksum_every cnpj weights [] = True"
| "cnpj_checksum_every cnpj weights (i # rest) =
     (let weights' = (if i = last cnpj_CHECK_DIGITS_INDEXES then 6 # weights else weights) in
      if index_char cnpj i =
           Some (check_digit_string
                   (generateChecksum (foldl (\<lambda>acc digit. acc @ [digit]) [] (take i cnpj))
                      (Table weights')))
      then cnpj_checksum_every cnpj weights' rest
      else False)"

definition cnpj_isValidChecksum :: "string \<Rightarrow> bool" where
  "cnpj_isValidChecksum cnpj =
     cnpj_checksum_every cnpj FIRST_CHECK_DIGIT_WEIGHTS cnpj_CHECK_DIGITS_INDEXES"

definition cnpj_isValid :: "jsval \<Rightarrow> bool" where
  "cnpj_isValid cnpj =
     (if \<not> truthy cnpj \<or> \<not> is_string cnpj then False
      else (let numbers = onlyNumbers cnpj in
            cnpj_isValidFormat (the_string cnpj) \<and> \<not> cnpj_isReservedNumber numbers \<and>
            cnpj_isValidChecksum numbers))"

section \<open>CEP\<close>

definition cep_LENGTH :: nat where
  "cep_LENGTH = 8"

definition cep_HYPHEN_INDEXES :: "nat list" where
  "cep_HYPHEN_INDEXES = [4]"


definition cep_format_step :: "string \<Rightarrow> string \<Rightarrow> nat \<times> char \<Rightarrow> string" where
  "cep_format_step digits acc p =
     (let i = fst p; result = acc @ [snd p] in
      if \<not> isLastChar i digits then
        (if i \<in> set cep_HYPHEN_INDEXES then result @ ''-'' else result)
      else result)"

definition cep_format :: "string \<Rightarrow> string" where
  "cep_format cep =
     (let digits = onlyNumbers (JString cep)
      in foldl (cep_format_step digits) [] (enumerate 0 (take cep_LENGTH digits)))"


section \<open>Phone\<close>

text \<open>
  \<open>Number(s)\<close> for a string of decimal digits; the empty string converts to 0. Any other
  string is read as NaN (\<open>None\<close>): the further numeric syntax of JavaScript (sign, point,
  exponent, surrounding blanks) does not occur in canonical digit strings and is not part
  of the embedding.
\<close>

definition js_Number :: "string \<Rightarrow> nat option" where
  "js_Number s =
     (if list_all is_digit s then Some (foldl (\<lambda>a c. 10 * a + digit_val c) 0 s) else None)"

text \<open>\<open>xs.includes(n)\<close> for a number that may be NaN; the lists hold no NaN.\<close>

definition includes_number :: "nat list \<Rightarrow> nat option \<Rightarrow> bool" where
  "includes_number xs n = (case n of None \<Rightarrow> False | Some k \<Rightarrow> k \<in> set xs)"

definition VALID_AREA_CODES :: "tables \<Rightarrow> nat list" where
  "VALID_AREA_CODES t = foldl (\<lambda>acc state. acc @ areaCodes (snd state)) [] (STATES_DATA t)"

definition PHONE_MIN_LENGTH :: nat where
  "PHONE_MIN_LENGTH = 10"

definition PHONE_MAX_LENGTH :: nat where
  "PHONE_MAX_LENGTH = 11"

definition MOBILE_VALID_FIRST_NUMBERS :: "nat list" where
  "MOBILE_VALID_FIRST_NUMBERS = [6, 7, 8, 9]"

definition LANDLINE_VALID_FIRST_NUMBERS :: "nat list" where
  "LANDLINE_VALID_FIRST_NUMBERS = [2, 3, 4, 5]"

definition isValidDDD :: "tables \<Rightarrow> string \<Rightarrow> bool" where
  "isValidDDD t phone = includes_number (VALID_AREA_CODES t) (js_Number (take 2 phone))"

definition isValidMobilePhoneLength :: "string \<Rightarrow> bool" where
  "isValidMobilePhoneLength phone = (length phone = PHONE_MAX_LENGTH)"

definition isValidLandlinePhoneLength :: "string \<Rightarrow> bool" where
  "isValidLandlinePhoneLength phone =
     (length phone \<ge> PHONE_MIN_LENGTH \<and> length phone < PHONE_MAX_LENGTH)"

definition phone_isValidLength :: "string \<Rightarrow> bool" where
  "phone_isValidLength phone =
     (isValidLandlinePhoneLength phone \<or> isValidMobilePhoneLength phone)"

definition isValidMobilePhoneFirstNumber :: "string \<Rightarrow> bool" where
  "isValidMobilePhoneFirstNumber phone =
     includes_number MOBILE_VALID_FIRST_NUMBERS (js_Number (charAt phone 2))"

definition isValidLandlinePhoneFirstNumber :: "string \<Rightarrow> bool" where
  "isValidLandlinePhoneFirstNumber phone =
     includes_number LANDLINE_VALID_FIRST_NUMBERS (js_Number (charAt phone 2))"

definition isValidFirstNumber :: "string \<Rightarrow> bool" where
  "isValidFirstNumber phone =
     (if length phone = PHONE_MIN_LENGTH then isValidLandlinePhoneFirstNumber phone
      else isValidMobilePhoneFirstNumber phone)"

definition parsePhoneDigits :: "jsval \<Rightarrow> bool \<times> string" where
  "parsePhoneDigits phone = (truthy phone \<and> is_string phone, onlyNumbers phone)"

definition isValidMobilePhone :: "tables \<Rightarrow> jsval \<Rightarrow> bool" where
  "isValidMobilePhone t phone =
     (let parsed = parsePhoneDigits phone; digits = snd parsed in
      if \<not> fst parsed then False
      else isValidMobilePhoneLength digits \<and> isValidMobilePhoneFirstNumber digits \<and>
           isValidDDD t digits)"

definition isValidLandlinePhone :: "tables \<Rightarrow> jsval \<Rightarrow> bool" where
  "isValidLandlinePhone t phone =
     (let parsed = parsePhoneDigits phone; digits = snd parsed in
      if \<not> fst parsed then False
      else isValidLandlinePhoneLength digits \<and> isValidLandlinePhoneFirstNumber digits \<and>
           isValidDDD t digits)"

definition phone_isValid :: "tables \<Rightarrow> jsval \<Rightarrow> bool" where
  "phone_isValid t phone =
     (let parsed = parsePhoneDigits phone; digits = snd parsed in
      if \<not> fst parsed then False
      else phone_isValidLength digits \<and> isValidFirstNumber digits \<and> isValidDDD t digits)"

section \<open>PIS\<close>

definition pis_LENGTH :: nat where
  "pis_LENGTH = 11"

definition pis_WEIGHTS :: "int list" where
  "pis_WEIGHTS = [3, 2, 9, 8, 7, 6, 5, 4, 3, 2]"

definition pis_RESERVED_NUMBERS :: "string list" where
  "pis_RESERVED_NUMBERS =
     [''00000000000'', ''11111111111'', ''22222222222'', ''33333333333'', ''44444444444'',
      ''55555555555'', ''66666666666'', ''77777777777'', ''88888888888'', ''99999999999'']"

definition pis_isValidLength :: "string \<Rightarrow> bool" where
  "pis_isValidLength pis = (length pis = pis_LENGTH)"

definition pis_isReservedNumber :: "string \<Rightarrow> bool" where
  "pis_isReservedNumber pis = (pis \<in> set pis_RESERVED_NUMBERS)"

text \<open>\<open>/^[0-9]+$/\<close>\<close>

definition hasOnlyNumbers :: "string \<Rightarrow> bool" where
  "hasOnlyNumbers pis = rx_test (Plus rx_digit) pis"

text \<open>\<open>pis.replace(/[ ().,*-]/g, '')\<close>\<close>

definition removeSeparators :: "string \<Rightarrow> string" where
  "removeSeparators pis = filter (\<lambda>c. c \<notin> set '' ().,*-'') pis"

definition pis_isValid :: "jsval \<Rightarrow> bool" where
  "pis_isValid pis =
     (if \<not> truthy pis \<or> \<not> is_string pis then False
      else
        (let numeric = removeSeparators (the_string pis) in
         if \<not> pis_isValidLength numeric \<or> pis_isReservedNumber numeric \<or>
            \<not> hasOnlyNumbers numeric
         then False
         else
           (let weightedChecksum =
                  generateChecksum (take (length numeric - 1) numeric) (Table pis_WEIGHTS);
                verifyingDigit = js_Number (charAt numeric (length numeric - 1));
                calculatedDigit = map_option (\<lambda>c. 11 - js_rem c 11) weightedChecksum
            in case (calculatedDigit, verifyingDigit) of
                 (Some c, Some v) \<Rightarrow>
                   c = int v \<or> (c = 10 \<and> v = 0) \<or> (c = 11 \<and> v = 0)
               | _ \<Rightarrow> False)))"

section \<open>Boleto\<close>

record partial_field =
  p_end :: nat
  p_start :: nat
  p_index :: nat

definition PARTIALS :: "partial_field list" where
  "PARTIALS =
     [\<lparr>p_end = 9, p_start = 0, p_index = 9\<rparr>,
      \<lparr>p_end = 20, p_start = 10, p_index = 20\<rparr>,
      \<lparr>p_end = 31, p_start = 21, p_index = 31\<rparr>]"

definition boleto_DOT_INDEXES :: "nat list" where
  "boleto_DOT_INDEXES = [4, 14, 25]"

definition boleto_SPACE_INDEXES :: "nat list" where
  "boleto_SPACE_INDEXES = [9, 20, 31, 32]"

definition boleto_LENGTH :: nat where
  "boleto_LENGTH = 47"

definition CHECK_DIGIT_POSITION :: nat where
  "CHECK_DIGIT_POSITION = 4"

definition MOD_11_WEIGHTS_end :: nat where
  "MOD_11_WEIGHTS_end = 9"

definition MOD_11_WEIGHTS_initial :: nat where
  "MOD_11_WEIGHTS_initial = 2"

definition MOD_10_WEIGHTS :: "nat list" where
  "MOD_10_WEIGHTS = [2, 1]"

text \<open>The conversion positions, as pairs \<open>(end, start)\<close> in the order of the source.\<close>

definition DIGITABLE_LINE_TO_BOLETO_CONVERT_POSITIONS :: "(nat \<times> nat) list" where
  "DIGITABLE_LINE_TO_BOLETO_CONVERT_POSITIONS = [(4, 0), (47, 32), (9, 4), (20, 10), (31, 21)]"

text \<open>\<open>s.substring(start, end)\<close> for \<open>start \<le> end\<close>, which holds at every call.\<close>

definition substring :: "string \<Rightarrow> nat \<Rightarrow> nat \<Rightarrow> string" where
  "substring s start end' = drop start (take end' s)"

definition boleto_isValidLength :: "string \<Rightarrow> bool" where
  "boleto_isValidLength digitableLine = (length digitableLine = boleto_LENGTH)"

text \<open>
  \<open>mod10\<close> and \<open>mod11\<close> are private to the module and only receive canonical digit
  strings, on which \<open>parseInt(digit, 10)\<close> is \<open>digit_val\<close>.
\<close>

definition mod10_step :: "nat \<Rightarrow> nat \<times> char \<Rightarrow> nat" where
  "mod10_step acc p =
     (let result = digit_val (snd p) * (MOD_10_WEIGHTS ! (fst p mod 2)) in
      acc + (if result > 9 then 1 + (result mod 10) else result))"

definition mod10 :: "string \<Rightarrow> nat" where
  "mod10 partial =
     (let sum = foldl mod10_step 0 (enumerate 0 (rev partial));
          m = sum mod 10
      in if m > 0 then 10 - m else 0)"

text \<open>The reducer of \<open>mod11\<close> updates the variable \<open>weight\<close>; the pair is \<open>(acc, weight)\<close>.\<close>

definition mod11_step :: "nat \<times> nat \<Rightarrow> char \<Rightarrow> nat \<times> nat" where
  "mod11_step st digit =
     (let acc = fst st; weight = snd st; result = digit_val digit * weight in
      (acc + result,
       if weight < MOD_11_WEIGHTS_end then weight + 1 else MOD_11_WEIGHTS_initial))"

definition mod11 :: "string \<Rightarrow> nat" where
  "mod11 v =
     (let sum = fst (foldl mod11_step (0, MOD_11_WEIGHTS_initial) (rev v));
          m = sum mod 11
      in if m = 0 \<or> m = 1 then 1 else 11 - m)"

text \<open>\<open>+s[i]\<close>: the number at index \<open>i\<close> of a digit string, NaN beyond its end.\<close>

definition digit_at :: "string \<Rightarrow> nat \<Rightarrow> nat option" where
  "digit_at s i = (if i < length s then js_Number [s ! i] else None)"

definition isValidPartials :: "string \<Rightarrow> bool" where
  "isValidPartials digitableLine =
     list_all
       (\<lambda>p. digit_at digitableLine (p_index p) =
              Some (mod10 (substring digitableLine (p_start p) (p_end p))))
       PARTIALS"

definition boleto_parse :: "string \<Rightarrow> string" where
  "boleto_parse digitableLine =
     foldl (\<lambda>acc pos. acc @ substring digitableLine (snd pos) (fst pos)) []
       DIGITABLE_LINE_TO_BOLETO_CONVERT_POSITIONS"

definition isValidCheckDigit :: "string \<Rightarrow> bool" where
  "isValidCheckDigit parsedDigitableLine =
     (let m = mod11 (take CHECK_DIGIT_POSITION parsedDigitableLine @
                     drop (CHECK_DIGIT_POSITION + 1) parsedDigitableLine)
      in digit_at parsedDigitableLine CHECK_DIGIT_POSITION = Some m)"

definition boleto_isValid :: "jsval \<Rightarrow> bool" where
  "boleto_isValid digitableLine =
     (if \<not> truthy digitableLine \<or> \<not> is_string digitableLine then False
      else
        (let digits = onlyNumbers digitableLine in
         if \<not> boleto_isValidLength digits then False
         else if \<not> isValidPartials digits then False
         else (let parsedDigits = boleto_parse digits in isValidCheckDigit parsedDigits)))"

definition boleto_format_step :: "string \<Rightarrow> string \<Rightarrow> nat \<times> char \<Rightarrow> string" where
  "boleto_format_step digits acc p =
     (let index = fst p; result = acc @ [snd p] in
      if \<not> isLastChar index digits then
        (if index \<in> set boleto_DOT_INDEXES then result @ ''.''
         else if index \<in> set boleto_SPACE_INDEXES then result @ '' ''
         else result)
      else result)"

definition boleto_format :: "string \<Rightarrow> string" where
  "boleto_format boleto =
     (let digits = onlyNumbers (JString boleto)
      in foldl (boleto_format_step digits) [] (enumerate 0 (take boleto_LENGTH digits)))"

section \<open>Processo juridico\<close>

definition pj_LENGTH :: nat where
  "pj_LENGTH = 20"

definition pj_DOT_INDEXES :: "nat list" where
  "pj_DOT_INDEXES = [8, 12, 15]"

definition pj_HYPHEN_INDEXES :: "nat list" where
  "pj_HYPHEN_INDEXES = [6]"

definition CHECK_DIGIT_START_POSITION :: nat where
  "CHECK_DIGIT_START_POSITION = 7"

definition CHECK_DIGIT_LENGTH :: nat where
  "CHECK_DIGIT_LENGTH = 2"

definition MOD_97_10_QUOCIENT :: nat where
  "MOD_97_10_QUOCIENT = 97"

definition MOD_97_10_SUM :: nat where
  "MOD_97_10_SUM = 98"

text \<open>The reducer asks \<open>isLastChar\<close> about the argument \<open>processoJuridico\<close>, not about \<open>digits\<close>.\<close>

definition pj_format_step :: "string \<Rightarrow> string \<Rightarrow> nat \<times> char \<Rightarrow> string" where
  "pj_format_step processoJuridico acc p =
     (let index = fst p; result = acc @ [snd p] in
      if \<not> isLastChar index processoJuridico then
        (if index \<in> set pj_DOT_INDEXES then result @ ''.''
         else if index \<in> set pj_HYPHEN_INDEXES then result @ ''-''
         else result)
      else result)"

definition pj_format :: "string \<Rightarrow> string" where
  "pj_format processoJuridico =
     (let digits = onlyNumbers (JString processoJuridico)
      in foldl (pj_format_step processoJuridico) [] (enumerate 0 (take pj_LENGTH digits)))"

text \<open>
  \<open>verifyDigit\<close>: \<open>splice\<close> takes the check digits out of the array of characters. The
  embedding reads each character with \<open>digit_val\<close> and computes in the naturals; it
  describes the function on strings of at most 20 decimal digits, which is what \<open>isValid\<close>
  passes. There every number stays below \<open>2^53\<close>, so the arithmetic of JavaScript is
  exact (see \<open>verifyDigit_exact\<close>).
\<close>

definition pj_digits1to11 :: "string \<Rightarrow> nat" where
  "pj_digits1to11 digits =
     foldl (\<lambda>acc p. acc + digit_val (snd p) * 10 ^ (10 - fst p)) 0 (enumerate 0 (take 11 digits))"

definition pj_digits12to18 :: "string \<Rightarrow> nat" where
  "pj_digits12to18 digits =
     foldl (\<lambda>acc p. acc + digit_val (snd p) * 10 ^ (6 - fst p)) 0 (enumerate 0 (drop 11 digits))"

definition verifyDigit :: "string \<Rightarrow> bool" where
  "verifyDigit processo =
     (let verificationDigits =
            take CHECK_DIGIT_LENGTH (drop CHECK_DIGIT_START_POSITION processo);
          digits = take CHECK_DIGIT_START_POSITION processo @
                   drop (CHECK_DIGIT_START_POSITION + CHECK_DIGIT_LENGTH) processo;
          digits1to11 = pj_digits1to11 digits;
          firstRemainder = digits1to11 mod MOD_97_10_QUOCIENT;
          digits12to18 = pj_digits12to18 digits;
          secondRemainder =
            (firstRemainder * 1000000000 + digits12to18 * 100) mod MOD_97_10_QUOCIENT;
          verifier = int MOD_97_10_SUM - int secondRemainder
      in map_option int (js_Number verificationDigits) = Some verifier)"


section \<open>Email\<close>












section \<open>Capitalize\<close>

definition ACRONYMS :: "string list" where
  "ACRONYMS = [''cia'', ''cnpj'', ''cpf'', ''ltda'', ''me'', ''rg'']"

definition PREPOSITIONS :: "string list" where
  "PREPOSITIONS =
     [''a'', ''com'', ''da'', ''das'', ''de'', ''do'', ''dos'', ''e'', ''em'', ''na'', ''nas'',
      ''no'', ''nos'', ''o'', ''por'', ''sem'']"

record CapitalizeOptions =
  lowerCaseWords :: "string list option"
  upperCaseWords :: "string list option"

text \<open>
  \<open>toLocaleLowerCase\<close> and \<open>toLocaleUpperCase\<close> on the ASCII letters; every other
  character is left as it is.
\<close>

definition lower_char :: "char \<Rightarrow> char" where
  "lower_char c =
     (case map_of (zip ''ABCDEFGHIJKLMNOPQRSTUVWXYZ'' ''abcdefghijklmnopqrstuvwxyz'') c of
        None \<Rightarrow> c | Some l \<Rightarrow> l)"

definition upper_char :: "char \<Rightarrow> char" where
  "upper_char c =
     (case map_of (zip ''abcdefghijklmnopqrstuvwxyz'' ''ABCDEFGHIJKLMNOPQRSTUVWXYZ'') c of
        None \<Rightarrow> c | Some u \<Rightarrow> u)"

definition toLocaleLowerCase :: "string \<Rightarrow> string" where
  "toLocaleLowerCase s = map lower_char s"

definition toLocaleUpperCase :: "string \<Rightarrow> string" where
  "toLocaleUpperCase s = map upper_char s"

text \<open>\<open>s.split(c)\<close> for a one-character separator, and \<open>words.join(' ')\<close>.\<close>

fun split_at :: "char \<Rightarrow> string \<Rightarrow> string list" where
  "split_at c [] = [[]]"
| "split_at c (x # xs) =
     (if x = c then [] # split_at c xs
      else (case split_at c xs of [] \<Rightarrow> [[x]] | w # ws \<Rightarrow> (x # w) # ws))"

fun join_with :: "char \<Rightarrow> string list \<Rightarrow> string" where
  "join_with c [] = []"
| "join_with c [w] = w"
| "join_with c (w # ws) = w @ [c] @ join_with c ws"

definition capitalize_word :: "string list \<Rightarrow> string list \<Rightarrow> nat \<times> string \<Rightarrow> string" where
  "capitalize_word lowerWords upperWords p =
     (let index = fst p; word = snd p; lowerCaseWord = toLocaleLowerCase word in
      if index > 0 \<and> lowerCaseWord \<in> set lowerWords then lowerCaseWord
      else
        (let upperCaseWord = toLocaleUpperCase word in
         if upperCaseWord \<in> set upperWords then upperCaseWord
         else charAt upperCaseWord 0 @ drop 1 lowerCaseWord))"

text \<open>A value that is not a string has no method \<open>split\<close>: the call is a TypeError.\<close>

definition capitalize :: "jsval \<Rightarrow> CapitalizeOptions \<Rightarrow> error + string" where
  "capitalize v options =
     (case v of
        JString s \<Rightarrow>
          (let lowerWords = (case lowerCaseWords options of None \<Rightarrow> PREPOSITIONS | Some l \<Rightarrow> l);
               upperWords = (case upperCaseWords options of None \<Rightarrow> ACRONYMS | Some u \<Rightarrow> u)
           in Inr (join_with (CHR '' '')
                     (map (capitalize_word lowerWords upperWords)
                        (enumerate 0 (filter (\<lambda>word. word \<noteq> []) (split_at (CHR '' '') s))))))
      | _ \<Rightarrow> Inl TypeError)"

section \<open>Currency\<close>












section \<open>States and cities\<close>

text \<open>
  \<open>Array.prototype.sort\<close> with a comparator is stable; for a comparator that is a total
  preorder its result is the one below, computed by insertion. \<open>localeCompare\<close> depends
  on the locale of the runtime and is a parameter.
\<close>

fun js_insert :: "('a \<Rightarrow> 'a \<Rightarrow> int) \<Rightarrow> 'a \<Rightarrow> 'a list \<Rightarrow> 'a list" where
  "js_insert cmp x [] = [x]"
| "js_insert cmp x (y # ys) = (if cmp x y \<le> 0 then x # y # ys else y # js_insert cmp x ys)"

fun js_sort :: "('a \<Rightarrow> 'a \<Rightarrow> int) \<Rightarrow> 'a list \<Rightarrow> 'a list" where
  "js_sort cmp [] = []"
| "js_sort cmp (x # xs) = js_insert cmp x (js_sort cmp xs)"

record State =
  code :: string
  name :: string

definition stateNameComparer :: "(string \<Rightarrow> string \<Rightarrow> int) \<Rightarrow> State \<Rightarrow> State \<Rightarrow> int" where
  "stateNameComparer localeCompare a b = localeCompare (name a) (name b)"

definition sortByStateName :: "(string \<Rightarrow> string \<Rightarrow> int) \<Rightarrow> State list \<Rightarrow> State list" where
  "sortByStateName localeCompare states = js_sort (stateNameComparer localeCompare) states"

text \<open>
  The operations on the tables return the tables as they are after the call. \<open>getStates\<close>
  sorts the array that \<open>map\<close> has just built. Reading \<open>.name\<close> of a state that \<open>STATES\<close>
  lists and \<open>STATES_DATA\<close> lacks is a TypeError.
\<close>

fun map_states :: "tables \<Rightarrow> string list \<Rightarrow> error + State list" where
  "map_states t [] = Inr []"
| "map_states t (c # cs) =
     (case map_of (STATES_DATA t) c of
        None \<Rightarrow> Inl TypeError
      | Some d \<Rightarrow>
          (case map_states t cs of
             Inl e \<Rightarrow> Inl e
           | Inr sts \<Rightarrow> Inr (\<lparr>code = c, name = state_name d\<rparr> # sts)))"

definition getStates :: "(string \<Rightarrow> string \<Rightarrow> int) \<Rightarrow> tables \<Rightarrow> (error + State list) \<times> tables" where
  "getStates localeCompare t =
     (case map_states t (STATES t) of
        Inl e \<Rightarrow> (Inl e, t)
      | Inr states \<Rightarrow> (Inr (sortByStateName localeCompare states), t))"

text \<open>
  \<open>getCities(state?)\<close>. With a state that is found, \<open>sort\<close> is called on the array stored in
  \<open>CITIES_DATA\<close> itself: it sorts that array in place and returns it. Without a state,
  \<open>concat\<close> builds a new array, which is then sorted.
\<close>

fun update_entry :: "'k \<Rightarrow> 'v \<Rightarrow> ('k \<times> 'v) list \<Rightarrow> ('k \<times> 'v) list" where
  "update_entry k v [] = []"
| "update_entry k v (p # ps) = (if fst p = k then (k, v) # ps else p # update_entry k v ps)"

definition getCities ::
  "(string \<Rightarrow> string \<Rightarrow> int) \<Rightarrow> tables \<Rightarrow> string option \<Rightarrow> (error + string list) \<times> tables" where
  "getCities localeCompare t state =
     (if state \<noteq> None \<and> state \<noteq> Some [] then
        (case fst (getStates localeCompare t) of
           Inl e \<Rightarrow> (Inl e, t)
         | Inr states \<Rightarrow>
             (case find (\<lambda>st. Some (name st) = state \<or> Some (code st) = state) states of
                None \<Rightarrow> (Inr [], t)
              | Some foundState \<Rightarrow>
                  (case map_of (CITIES_DATA t) (code foundState) of
                     None \<Rightarrow> (Inl TypeError, t)
                   | Some cities \<Rightarrow>
                       (let sorted_cities = js_sort localeCompare cities in
                        (Inr sorted_cities,
                         t\<lparr>CITIES_DATA :=
                             update_entry (code foundState) sorted_cities (CITIES_DATA t)\<rparr>)))))
      else
        (Inr (js_sort localeCompare
                (foldl (\<lambda>acc city. acc @ city) [] (map snd (CITIES_DATA t)))), t))"

text \<open>A comparison by character codes, which agrees with \<open>localeCompare\<close> on lower-case ASCII words.\<close>

fun code_compare :: "string \<Rightarrow> string \<Rightarrow> int" where
  "code_compare [] [] = 0"
| "code_compare [] (y # ys) = - 1"
| "code_compare (x # xs) [] = 1"
| "code_compare (x # xs) (y # ys) =
     (if (of_char x :: nat) < of_char y then - 1
      else if (of_char y :: nat) < of_char x then 1
      else code_compare xs ys)"

section \<open>Example tables\<close>

text \<open>A small instance of the reference tables, for evaluating the operations.\<close>

definition example_tables :: tables where
  "example_tables =
     \<lparr>STATES = [''SP'', ''AC''],
      STATES_DATA =
        [(''SP'', \<lparr>numeric_code = 8, state_name = ''Sao Paulo'', areaCodes = [11, 12]\<rparr>),
         (''AC'', \<lparr>numeric_code = 2, state_name = ''Acre'', areaCodes = [68]\<rparr>)],
      CITIES_DATA =
        [(''SP'', [''sao paulo'', ''campinas'']), (''AC'', [''rio branco'', ''acrelandia''])]\<rparr>"

section \<open>Properties as the specification words them\<close>

text \<open>
  The weighted sum over the first ten digits of a PIS number and the calculated digit
  \<open>11 - (S mod 11)\<close>, written out directly.
\<close>

definition pis_weighted_sum :: "string \<Rightarrow> int" where
  "pis_weighted_sum s = sum_list (map (\<lambda>i. int (digit_val (s ! i)) * pis_WEIGHTS ! i) [0..<10])"

definition pis_calculated_digit :: "string \<Rightarrow> int" where
  "pis_calculated_digit s = 11 - pis_weighted_sum s mod 11"

text \<open>
  The number a digit string denotes, the 18-digit number of a judicial process (its digits
  without the two check digits, in order) and the number its check digits denote.
\<close>

definition digits_to_nat :: "string \<Rightarrow> nat" where
  "digits_to_nat s = foldl (\<lambda>a c. 10 * a + digit_val c) 0 s"

definition pj_number :: "string \<Rightarrow> nat" where
  "pj_number s = digits_to_nat (take 7 s @ drop 9 s)"

definition pj_check_digits :: "string \<Rightarrow> nat" where
  "pj_check_digits s = 10 * digit_val (s ! 7) + digit_val (s ! 8)"

text \<open>
  The mod-11 check digit of a boleto, written out directly: the weights cycle through
  2, 3, ..., 9 starting at the rightmost digit, and the remainders 0 and 1 both give the
  check digit 1.
\<close>

definition mod11_weighted_sum :: "string \<Rightarrow> nat" where
  "mod11_weighted_sum v =
     sum_list (map (\<lambda>j. digit_val (rev v ! j) * (2 + j mod 8)) [0..<length v])"

definition mod11_check_digit :: "string \<Rightarrow> nat" where
  "mod11_check_digit v =
     (let m = mod11_weighted_sum v mod 11 in if m = 0 \<or> m = 1 then 1 else 11 - m)"


text \<open>
  The positional formatter as section 4.2 words it: given a digit string and a table of
  (position, separator) rules, the separator goes immediately after the digit at each
  listed position, except when that position is the last character of the digit string
  truncated to the fixed length. The rule tables are the index constants of each module.
\<close>

definition positional_format :: "(nat \<times> char) list \<Rightarrow> nat \<Rightarrow> string \<Rightarrow> string" where
  "positional_format rules len digits =
     (let ds = take len digits in
      concat (map (\<lambda>p. case map_of rules (fst p) of
                          None \<Rightarrow> [snd p]
                        | Some sep \<Rightarrow> if Suc (fst p) = length ds then [snd p] else [snd p, sep])
                (enumerate 0 ds)))"

definition with_separator :: "char \<Rightarrow> nat list \<Rightarrow> (nat \<times> char) list" where
  "with_separator sep indexes = map (\<lambda>i. (i, sep)) indexes"

definition cpf_rules :: "(nat \<times> char) list" where
  "cpf_rules = with_separator (CHR ''.'') cpf_DOT_INDEXES @ with_separator (CHR ''-'') cpf_HYPHEN_INDEXES"

definition cnpj_rules :: "(nat \<times> char) list" where
  "cnpj_rules = with_separator (CHR ''.'') cnpj_DOT_INDEXES @
                with_separator (CHR ''/'') cnpj_SLASH_INDEXES @
                with_separator (CHR ''-'') cnpj_HYPHEN_INDEXES"

definition cep_rules :: "(nat \<times> char) list" where
  "cep_rules = with_separator (CHR ''-'') cep_HYPHEN_INDEXES"

definition boleto_rules :: "(nat \<times> char) list" where
  "boleto_rules = with_separator (CHR ''.'') boleto_DOT_INDEXES @
                  with_separator (CHR '' '') boleto_SPACE_INDEXES"

definition pj_rules :: "(nat \<times> char) list" where
  "pj_rules = with_separator (CHR ''.'') pj_DOT_INDEXES @ with_separator (CHR ''-'') pj_HYPHEN_INDEXES"




text \<open>
  A comparator is linear when it is total, transitive and tells distinct values apart, as
  \<open>localeCompare\<close> does on the names of the tables.
\<close>

definition linear_comparator :: "('a \<Rightarrow> 'a \<Rightarrow> int) \<Rightarrow> bool" where
  "linear_comparator cmp =
     ((\<forall>x y. cmp x y \<le> 0 \<or> cmp y x \<le> 0) \<and>
      (\<forall>x y z. cmp x y \<le> 0 \<and> cmp y z \<le> 0 \<longrightarrow> cmp x z \<le> 0) \<and>
      (\<forall>x y. cmp x y \<le> 0 \<and> cmp y x \<le> 0 \<longrightarrow> x = y))"




datatype result =
    R_boolean bool
  | R_string string
  | R_number rat
  | R_states "State list"
  | R_strings "string list"








section \<open>Properties\<close>

lemma digit_val_digit_char: "d < 10 \<Longrightarrow> digit_val (digit_char d) = d"
proof -
  assume "d < 10"
  then have "d \<in> {0, 1, 2, 3, 4, 5, 6, 7, 8, 9}" by auto
  then show ?thesis
    by (auto simp add: digit_val_def digit_char_def)
qed


lemma js_Number_single: "js_Number [c] = (if is_digit c then Some (digit_val c) else None)"
  by (simp add: js_Number_def)

lemma js_Number_Nil: "js_Number [] = Some 0"
  by (simp add: js_Number_def)

subsection \<open>Phone numbers\<close>

lemma landline_first_number:
  "includes_number LANDLINE_VALID_FIRST_NUMBERS (js_Number (charAt s 2)) \<Longrightarrow>
     2 < length s \<and> s ! 2 \<in> set ''2345''"
  by (auto simp add: includes_number_def LANDLINE_VALID_FIRST_NUMBERS_def charAt_def
      js_Number_single js_Number_Nil is_digit_def digit_val_def split: if_splits option.splits)

lemma mobile_first_number:
  "includes_number MOBILE_VALID_FIRST_NUMBERS (js_Number (charAt s 2)) \<Longrightarrow>
     2 < length s \<and> s ! 2 \<in> set ''6789''"
  by (auto simp add: includes_number_def MOBILE_VALID_FIRST_NUMBERS_def charAt_def
      js_Number_single js_Number_Nil is_digit_def digit_val_def split: if_splits option.splits)

text \<open>
  Claim C8. If phone \<open>isValid\<close> returns true, the canonical digit string has 10 digits and
  the digit after the two-digit area code is one of 2, 3, 4, 5 (the landline rule), or it
  has 11 digits and that digit is one of 6, 7, 8, 9 (the mobile rule). Hence every other
  digit count is invalid, and so is a 10-digit number that only meets the mobile rule or
  an 11-digit number that only meets the landline rule.
\<close>

theorem phone_isValid_length_first_number:
  assumes "phone_isValid t phone"
  shows "(length (onlyNumbers phone) = 10 \<and> onlyNumbers phone ! 2 \<in> set ''2345'') \<or>
         (length (onlyNumbers phone) = 11 \<and> onlyNumbers phone ! 2 \<in> set ''6789'')"
proof -
  let ?d = "onlyNumbers phone"
  from assms have len: "phone_isValidLength ?d" and first: "isValidFirstNumber ?d"
    by (auto simp add: phone_isValid_def parsePhoneDigits_def Let_def split: if_splits)
  from len have "length ?d = 10 \<or> length ?d = 11"
    by (auto simp add: phone_isValidLength_def isValidLandlinePhoneLength_def
        isValidMobilePhoneLength_def PHONE_MIN_LENGTH_def PHONE_MAX_LENGTH_def)
  then show ?thesis
  proof
    assume l: "length ?d = 10"
    with first have "isValidLandlinePhoneFirstNumber ?d"
      by (simp add: isValidFirstNumber_def PHONE_MIN_LENGTH_def)
    then have "?d ! 2 \<in> set ''2345''"
      using landline_first_number by (simp add: isValidLandlinePhoneFirstNumber_def)
    with l show ?thesis by blast
  next
    assume l: "length ?d = 11"
    with first have "isValidMobilePhoneFirstNumber ?d"
      by (simp add: isValidFirstNumber_def PHONE_MIN_LENGTH_def)
    then have "?d ! 2 \<in> set ''6789''"
      using mobile_first_number by (simp add: isValidMobilePhoneFirstNumber_def)
    with l show ?thesis by blast
  qed
qed

theorem phone_isValid_length_first_number_witness:
  "phone_isValid example_tables (JString ''(11) 4002-8922'') \<and>
   length (onlyNumbers (JString ''(11) 4002-8922'')) = 10 \<and>
   onlyNumbers (JString ''(11) 4002-8922'') ! 2 \<in> set ''2345''"
proof -
  have h: "phone_isValid example_tables (JString ''(11) 4002-8922'')"
    by code_simp
  have n: "length (onlyNumbers (JString ''(11) 4002-8922'')) \<noteq> 11"
    by code_simp
  from phone_isValid_length_first_number [OF h] n h show ?thesis
    by blast
qed

subsection \<open>Digits, remainders and patterns\<close>

lemma digit_val_less: "is_digit c \<Longrightarrow> digit_val c < 10"
  by (auto simp add: is_digit_def digit_val_def)

lemma deriv_digit: "is_digit c \<Longrightarrow> deriv c rx_digit = One"
  by (simp add: is_digit_def rx_digit_def)

lemma js_rem_nonneg: "0 \<le> a \<Longrightarrow> js_rem a b = a mod \<bar>b\<bar>"
  by (cases "a = 0") (simp_all add: js_rem_def)

lemma length_11:
  assumes "length (s :: 'a list) = 11"
  obtains a0 a1 a2 a3 a4 a5 a6 a7 a8 a9 a10
  where "s = [a0, a1, a2, a3, a4, a5, a6, a7, a8, a9, a10]"
  using assms by (auto simp add: eval_nat_numeral length_Suc_conv)

subsection \<open>PIS\<close>

lemma removeSeparators_digits: "list_all is_digit s \<Longrightarrow> removeSeparators s = s"
  unfolding removeSeparators_def
  by (induction s) (auto simp add: is_digit_def)

lemma hasOnlyNumbers_11:
  assumes "list_all is_digit s" "length s = 11"
  shows "hasOnlyNumbers s"
proof -
  from assms(2) obtain a0 a1 a2 a3 a4 a5 a6 a7 a8 a9 a10
    where s: "s = [a0, a1, a2, a3, a4, a5, a6, a7, a8, a9, a10]" by (rule length_11)
  from assms(1) show ?thesis
    unfolding s hasOnlyNumbers_def rx_test_def Plus_def
    by (simp add: deriv_digit)
qed

lemma pis_checksum_10:
  assumes "list_all is_digit s" "length s = 11"
  shows "generateChecksum (take 10 s) (Table pis_WEIGHTS) = Some (pis_weighted_sum s)"
proof -
  from assms(2) obtain a0 a1 a2 a3 a4 a5 a6 a7 a8 a9 a10
    where s: "s = [a0, a1, a2, a3, a4, a5, a6, a7, a8, a9, a10]" by (rule length_11)
  from assms(1) show ?thesis
    unfolding s generateChecksum_def onlyNumbers_def pis_weighted_sum_def
    by (simp add: enumerate_eq_zip upt_rec checksum_step_def pis_WEIGHTS_def)
qed

lemma pis_weighted_sum_nonneg: "0 \<le> pis_weighted_sum s"
  unfolding pis_weighted_sum_def pis_WEIGHTS_def
  by (simp add: upt_rec)

text \<open>
  Claim C6. For every 11-digit, all-numeric PIS string that is not reserved, with \<open>S\<close> the
  weighted sum over its first ten digits: when the calculated digit \<open>11 - (S mod 11)\<close> is
  10 or 11, \<open>isValid\<close> returns true exactly when the eleventh digit is 0; otherwise it
  returns true exactly when the eleventh digit equals the calculated digit.
\<close>

theorem pis_isValid_check_digit:
  assumes "length s = 11" and "list_all is_digit s" and "\<not> pis_isReservedNumber s"
  shows "pis_isValid (JString s) =
           (if pis_calculated_digit s = 10 \<or> pis_calculated_digit s = 11
            then digit_val (s ! 10) = 0
            else int (digit_val (s ! 10)) = pis_calculated_digit s)"
proof -
  have ne: "s \<noteq> []" using assms(1) by auto
  have v: "digit_val (s ! 10) < 10" and d10: "is_digit (s ! 10)"
    using assms(1,2) by (simp_all add: digit_val_less list_all_length)
  have rem: "js_rem (pis_weighted_sum s) 11 = pis_weighted_sum s mod 11"
    using js_rem_nonneg [OF pis_weighted_sum_nonneg, of s 11] by simp
  have valid: "pis_isValid (JString s) =
      (pis_calculated_digit s = int (digit_val (s ! 10)) \<or>
       (pis_calculated_digit s = 10 \<and> digit_val (s ! 10) = 0) \<or>
       (pis_calculated_digit s = 11 \<and> digit_val (s ! 10) = 0))"
    using assms ne d10
    by (simp add: pis_isValid_def removeSeparators_digits pis_isValidLength_def pis_LENGTH_def
        hasOnlyNumbers_11 pis_checksum_10 charAt_def js_Number_single rem
        pis_calculated_digit_def)
  show ?thesis
    unfolding valid using v by auto
qed

theorem pis_isValid_check_digit_witness:
  "length ''00000000310'' = 11 \<and> list_all is_digit ''00000000310'' \<and>
   \<not> pis_isReservedNumber ''00000000310'' \<and>
   pis_calculated_digit ''00000000310'' = 11 \<and> digit_val (''00000000310'' ! 10) = 0 \<and>
   pis_isValid (JString ''00000000310'')"
proof -
  have h1: "length ''00000000310'' = 11" by simp
  have h2: "list_all is_digit ''00000000310''" by (simp add: is_digit_def)
  have h3: "\<not> pis_isReservedNumber ''00000000310''"
    by (simp add: pis_isReservedNumber_def pis_RESERVED_NUMBERS_def)
  have c: "pis_calculated_digit ''00000000310'' = 11"
    by (simp add: pis_calculated_digit_def pis_weighted_sum_def pis_WEIGHTS_def upt_rec
        digit_val_def)
  have v: "digit_val (''00000000310'' ! 10) = 0" by (simp add: digit_val_def)
  from pis_isValid_check_digit [OF h1 h2 h3] h1 h2 h3 c v show ?thesis by simp
qed

subsection \<open>Processo juridico: the check digits\<close>

lemma length_20:
  assumes "length (s :: 'a list) = 20"
  obtains a0 a1 a2 a3 a4 a5 a6 a7 a8 a9 a10 a11 a12 a13 a14 a15 a16 a17 a18 a19
  where "s = [a0, a1, a2, a3, a4, a5, a6, a7, a8, a9, a10, a11, a12, a13, a14, a15, a16, a17,
              a18, a19]"
  using assms by (auto simp add: eval_nat_numeral length_Suc_conv)

lemma mod97_two_steps:
  "((x mod 97) * 1000000000 + y * 100) mod 97 = ((x * 10000000 + y) * 100) mod (97 :: nat)"
proof -
  have "((x mod 97) * 1000000000 + y * 100) mod 97 = (x * 1000000000 + y * 100) mod 97"
    by (metis mod_add_left_eq mod_mult_left_eq)
  also have "x * 1000000000 + y * 100 = (x * 10000000 + y) * 100"
    by (simp add: algebra_simps)
  finally show ?thesis .
qed

lemma pj_number_split:
  assumes "length s = 20"
  shows "pj_number s =
           pj_digits1to11 (take 7 s @ drop 9 s) * 10000000 + pj_digits12to18 (take 7 s @ drop 9 s)"
proof -
  from assms obtain a0 a1 a2 a3 a4 a5 a6 a7 a8 a9 a10 a11 a12 a13 a14 a15 a16 a17 a18 a19
    where s: "s = [a0, a1, a2, a3, a4, a5, a6, a7, a8, a9, a10, a11, a12, a13, a14, a15, a16,
                   a17, a18, a19]" by (rule length_20)
  show ?thesis
    unfolding s pj_number_def digits_to_nat_def pj_digits1to11_def pj_digits12to18_def
    by (simp add: enumerate_eq_zip upt_rec)
qed

lemma pj_js_Number_check_digits:
  assumes "length s = 20" "list_all is_digit s"
  shows "js_Number (take 2 (drop 7 s)) = Some (pj_check_digits s)"
proof -
  from assms(1) obtain a0 a1 a2 a3 a4 a5 a6 a7 a8 a9 a10 a11 a12 a13 a14 a15 a16 a17 a18 a19
    where s: "s = [a0, a1, a2, a3, a4, a5, a6, a7, a8, a9, a10, a11, a12, a13, a14, a15, a16,
                   a17, a18, a19]" by (rule length_20)
  from assms(2) show ?thesis
    unfolding s js_Number_def pj_check_digits_def
    by simp
qed

text \<open>On 20-digit strings every number that \<open>verifyDigit\<close> computes is below \<open>2^53\<close>.\<close>

lemma verifyDigit_exact:
  assumes "length s = 20" and "list_all is_digit s"
  shows "pj_digits1to11 (take 7 s @ drop 9 s) < 2 ^ 53 \<and>
         pj_digits1to11 (take 7 s @ drop 9 s) mod 97 * 1000000000 +
           pj_digits12to18 (take 7 s @ drop 9 s) * 100 < 2 ^ 53"
proof -
  from assms(1) obtain a0 a1 a2 a3 a4 a5 a6 a7 a8 a9 a10 a11 a12 a13 a14 a15 a16 a17 a18 a19
    where s: "s = [a0, a1, a2, a3, a4, a5, a6, a7, a8, a9, a10, a11, a12, a13, a14, a15, a16,
                   a17, a18, a19]" by (rule length_20)
  have m: "pj_digits1to11 (take 7 s @ drop 9 s) mod 97 < 97" by simp
  from assms(2) have b: "pj_digits1to11 (take 7 s @ drop 9 s) < 100000000000"
    and c: "pj_digits12to18 (take 7 s @ drop 9 s) < 10000000"
    unfolding s pj_digits1to11_def pj_digits12to18_def
    using digit_val_less [of a0] digit_val_less [of a1] digit_val_less [of a2]
      digit_val_less [of a3] digit_val_less [of a4] digit_val_less [of a5]
      digit_val_less [of a6] digit_val_less [of a9] digit_val_less [of a10]
      digit_val_less [of a11] digit_val_less [of a12] digit_val_less [of a13]
      digit_val_less [of a14] digit_val_less [of a15] digit_val_less [of a16]
      digit_val_less [of a17] digit_val_less [of a18] digit_val_less [of a19]
    by (simp_all add: enumerate_eq_zip upt_rec)
  from m b c show ?thesis by simp
qed

text \<open>
  Claim C5. For every 20-digit judicial process string, \<open>verifyDigit\<close> returns true if and
  only if the number formed by the two check digits at positions 7 and 8 equals 98 minus
  \<open>(N * 100) mod 97\<close>, where \<open>N\<close> is the 18-digit number formed by the remaining digits in
  order; and the two-step running remainder of the implementation equals that direct
  remainder.
\<close>

theorem verifyDigit_mod_97:
  assumes "length s = 20" and "list_all is_digit s"
  shows "verifyDigit s = (int (pj_check_digits s) = 98 - int ((pj_number s * 100) mod 97)) \<and>
         (pj_digits1to11 (take 7 s @ drop 9 s) mod 97 * 1000000000 +
            pj_digits12to18 (take 7 s @ drop 9 s) * 100) mod 97 = (pj_number s * 100) mod 97"
proof -
  let ?d = "take 7 s @ drop 9 s"
  have "verifyDigit s =
          (int (pj_check_digits s) =
             98 - int ((pj_digits1to11 ?d mod 97 * 1000000000 + pj_digits12to18 ?d * 100) mod 97))"
    using pj_js_Number_check_digits [OF assms]
    by (simp add: verifyDigit_def CHECK_DIGIT_LENGTH_def CHECK_DIGIT_START_POSITION_def
        MOD_97_10_QUOCIENT_def MOD_97_10_SUM_def Let_def)
  then show ?thesis
    by (simp only: mod97_two_steps pj_number_split [OF assms(1)])
qed

theorem verifyDigit_mod_97_witness:
  "length ''00020802520125150049'' = 20 \<and> list_all is_digit ''00020802520125150049'' \<and>
   verifyDigit ''00020802520125150049'' \<and>
   pj_check_digits ''00020802520125150049'' = 25 \<and>
   pj_number ''00020802520125150049'' = 208020125150049"
proof -
  have h1: "length ''00020802520125150049'' = 20" by simp
  have h2: "list_all is_digit ''00020802520125150049''" by (simp add: is_digit_def)
  have c: "pj_check_digits ''00020802520125150049'' = 25"
    by (simp add: pj_check_digits_def digit_val_def)
  have n: "pj_number ''00020802520125150049'' = 208020125150049"
    by (simp add: pj_number_def digits_to_nat_def digit_val_def)
  from verifyDigit_mod_97 [OF h1 h2] h1 h2 c n show ?thesis by simp
qed

subsection \<open>Boleto: the mod-11 check digit\<close>

lemma mod11_step_cycle:
  "mod11_step (a, 2 + k mod 8) c = (a + digit_val c * (2 + k mod 8), 2 + Suc k mod 8)"
proof -
  have "k mod 8 < 7 \<or> k mod 8 = 7" using mod_less_divisor [of 8 k] by linarith
  then show ?thesis
  proof
    assume "k mod 8 < 7"
    then have "Suc k mod 8 = Suc (k mod 8)" by presburger
    with \<open>k mod 8 < 7\<close> show ?thesis
      by (simp add: mod11_step_def MOD_11_WEIGHTS_end_def MOD_11_WEIGHTS_initial_def)
  next
    assume "k mod 8 = 7"
    then have "Suc k mod 8 = 0" by presburger
    with \<open>k mod 8 = 7\<close> show ?thesis
      by (simp add: mod11_step_def MOD_11_WEIGHTS_end_def MOD_11_WEIGHTS_initial_def)
  qed
qed

lemma foldl_mod11_step:
  "foldl mod11_step (a, 2 + k mod 8) xs =
     (a + sum_list (map (\<lambda>j. digit_val (xs ! j) * (2 + (k + j) mod 8)) [0..<length xs]),
      2 + (k + length xs) mod 8)"
proof (induction xs arbitrary: a k)
  case Nil
  then show ?case by simp
next
  case (Cons x xs)
  have "foldl mod11_step (a, 2 + k mod 8) (x # xs) =
          foldl mod11_step (a + digit_val x * (2 + k mod 8), 2 + Suc k mod 8) xs"
    by (simp only: foldl_Cons mod11_step_cycle)
  also have "\<dots> =
      (a + digit_val x * (2 + k mod 8) +
         sum_list (map (\<lambda>j. digit_val (xs ! j) * (2 + (Suc k + j) mod 8)) [0..<length xs]),
       2 + (Suc k + length xs) mod 8)"
    by (rule Cons.IH)
  finally show ?case
    by (simp add: map_upt_Suc del: upt_Suc)
qed

lemma mod11_eq: "mod11 v = mod11_check_digit v"
  using foldl_mod11_step [of 0 0 "rev v"]
  by (simp add: mod11_def mod11_check_digit_def mod11_weighted_sum_def MOD_11_WEIGHTS_initial_def)

lemma list_all_substring: "list_all P s \<Longrightarrow> list_all P (substring s a b)"
  unfolding substring_def list_all_iff
  by (meson in_set_dropD in_set_takeD)

lemma boleto_parse_digits: "list_all is_digit d \<Longrightarrow> list_all is_digit (boleto_parse d)"
  by (simp add: boleto_parse_def DIGITABLE_LINE_TO_BOLETO_CONVERT_POSITIONS_def list_all_substring)

lemma boleto_parse_length: "length d = 47 \<Longrightarrow> length (boleto_parse d) = 44"
  by (simp add: boleto_parse_def DIGITABLE_LINE_TO_BOLETO_CONVERT_POSITIONS_def substring_def)

lemma onlyNumbers_digits: "list_all is_digit (onlyNumbers v)"
  by (simp add: onlyNumbers_def list_all_iff)

text \<open>
  Claim C10. For every digitable line with 47 digits that passes the three mod-10 partial
  checks, boleto \<open>isValid\<close> returns true exactly when the digit at position 4 of the
  rearranged line equals the mod-11 value of the other digits of that line, computed with
  weights cycling 2 through 9 from the rightmost digit, where the remainders 0 and 1 both
  map to the check digit 1.
\<close>

theorem boleto_isValid_mod11:
  assumes "length (onlyNumbers (JString s)) = 47"
    and "isValidPartials (onlyNumbers (JString s))"
  shows "boleto_isValid (JString s) =
           (digit_val (boleto_parse (onlyNumbers (JString s)) ! 4) =
              mod11_check_digit (take 4 (boleto_parse (onlyNumbers (JString s))) @
                                 drop 5 (boleto_parse (onlyNumbers (JString s)))))"
proof -
  let ?d = "onlyNumbers (JString s)"
  let ?p = "boleto_parse ?d"
  have ne: "s \<noteq> []" using assms(1) by (auto simp add: onlyNumbers_def)
  have len: "length ?p = 44" using assms(1) by (rule boleto_parse_length)
  have "list_all is_digit ?p" using onlyNumbers_digits by (rule boleto_parse_digits)
  with len have dig: "is_digit (?p ! 4)" by (simp add: list_all_length)
  have "boleto_isValid (JString s) = isValidCheckDigit ?p"
    using assms ne by (simp add: boleto_isValid_def boleto_isValidLength_def boleto_LENGTH_def)
  also have "\<dots> = (digit_val (?p ! 4) = mod11_check_digit (take 4 ?p @ drop 5 ?p))"
    using len dig
    by (simp add: isValidCheckDigit_def CHECK_DIGIT_POSITION_def digit_at_def js_Number_single
        mod11_eq)
  finally show ?thesis .
qed

theorem boleto_isValid_mod11_witness:
  "length (onlyNumbers (JString ''00190.00009 01149.718601 68524.522114 6 75860000102656'')) = 47 \<and>
   isValidPartials (onlyNumbers (JString ''00190.00009 01149.718601 68524.522114 6 75860000102656'')) \<and>
   boleto_isValid (JString ''00190.00009 01149.718601 68524.522114 6 75860000102656'') \<and>
   boleto_parse (onlyNumbers (JString ''00190.00009 01149.718601 68524.522114 6 75860000102656'')) ! 4
     = CHR ''6''"
proof -
  let ?s = "''00190.00009 01149.718601 68524.522114 6 75860000102656''"
  have d: "onlyNumbers (JString ?s) = ''00190000090114971860168524522114675860000102656''"
    by (simp add: onlyNumbers_def is_digit_def)
  have h1: "length (onlyNumbers (JString ?s)) = 47" unfolding d by simp
  have h2: "isValidPartials (onlyNumbers (JString ?s))" unfolding d by code_simp
  have p: "boleto_parse (onlyNumbers (JString ?s)) = ''00196758600001026560000001149718606852452211''"
    unfolding d by code_simp
  have c: "mod11_check_digit (take 4 ''00196758600001026560000001149718606852452211'' @
                              drop 5 ''00196758600001026560000001149718606852452211'') = 6"
    by code_simp
  have v: "digit_val (CHR ''6'') = 6" by (simp add: digit_val_def)
  from boleto_isValid_mod11 [OF h1 h2] h1 h2 show ?thesis
    unfolding p using c v by simp
qed

subsection \<open>Formatting keeps the digits\<close>

lemma foldl_filter_digits:
  assumes "\<And>acc p. filter is_digit (step acc p) = filter is_digit acc @ filter is_digit [snd p]"
  shows "filter is_digit (foldl step acc ps) = filter is_digit acc @ filter is_digit (map snd ps)"
proof (induction ps arbitrary: acc)
  case Nil
  then show ?case by simp
next
  case (Cons p ps)
  then show ?case by (simp add: assms)
qed

lemma format_fold_digits:
  assumes "\<And>acc p. filter is_digit (step acc p) = filter is_digit acc @ filter is_digit [snd p]"
    and "list_all is_digit xs"
  shows "onlyNumbers (JString (foldl step [] (enumerate 0 xs))) = xs"
proof -
  have "filter is_digit xs = xs"
    using assms(2) by (simp add: list_all_iff)
  then show ?thesis
    by (simp add: onlyNumbers_def foldl_filter_digits [of step, OF assms(1)] map_snd_enumerate)
qed

lemma list_all_take: "list_all P xs \<Longrightarrow> list_all P (take n xs)"
  by (auto simp add: list_all_iff dest: in_set_takeD)

lemma padStart_digits:
  assumes "list_all is_digit s"
  shows "list_all is_digit (padStart s n (CHR ''0''))"
proof -
  have z: "is_digit (CHR ''0'')" by (simp add: is_digit_def)
  have "list_all is_digit (replicate k (CHR ''0''))" for k
    by (induction k) (simp_all add: z)
  with assms show ?thesis by (simp add: padStart_def)
qed

lemma sep_not_digit:
  "\<not> is_digit (CHR ''.'')" "\<not> is_digit (CHR ''-'')" "\<not> is_digit (CHR ''/'')"
  "\<not> is_digit (CHR '' '')"
  by (simp_all add: is_digit_def)

lemma cpf_format_step_digits:
  "filter is_digit (cpf_format_step digits acc p) = filter is_digit acc @ filter is_digit [snd p]"
  by (simp add: cpf_format_step_def Let_def sep_not_digit)

lemma cnpj_format_step_digits:
  "filter is_digit (cnpj_format_step digits acc p) = filter is_digit acc @ filter is_digit [snd p]"
  by (simp add: cnpj_format_step_def Let_def sep_not_digit)

lemma cep_format_step_digits:
  "filter is_digit (cep_format_step digits acc p) = filter is_digit acc @ filter is_digit [snd p]"
  by (simp add: cep_format_step_def Let_def sep_not_digit)

lemma boleto_format_step_digits:
  "filter is_digit (boleto_format_step digits acc p) = filter is_digit acc @ filter is_digit [snd p]"
  by (simp add: boleto_format_step_def Let_def sep_not_digit)

lemma pj_format_step_digits:
  "filter is_digit (pj_format_step raw acc p) = filter is_digit acc @ filter is_digit [snd p]"
  by (simp add: pj_format_step_def Let_def sep_not_digit)

lemma cpf_format_digits:
  "onlyNumbers (JString (cpf_format v options)) =
     take 11 (if pad options = Some True then padStart (onlyNumbers v) 11 (CHR ''0'')
              else onlyNumbers v)"
  unfolding cpf_format_def Let_def cpf_LENGTH_def
  by (rule trans [OF format_fold_digits [of "cpf_format_step _", OF cpf_format_step_digits]])
    (simp_all add: list_all_take padStart_digits onlyNumbers_digits)

lemma cnpj_format_digits:
  "onlyNumbers (JString (cnpj_format v options)) =
     take 14 (if pad options = Some True then padStart (onlyNumbers v) 14 (CHR ''0'')
              else onlyNumbers v)"
  unfolding cnpj_format_def Let_def cnpj_LENGTH_def
  by (rule trans [OF format_fold_digits [of "cnpj_format_step _", OF cnpj_format_step_digits]])
    (simp_all add: list_all_take padStart_digits onlyNumbers_digits)

lemma cep_format_digits:
  "onlyNumbers (JString (cep_format s)) = take 8 (onlyNumbers (JString s))"
  unfolding cep_format_def Let_def cep_LENGTH_def
  by (rule trans [OF format_fold_digits [of "cep_format_step _", OF cep_format_step_digits]])
    (simp_all add: list_all_take onlyNumbers_digits)

lemma boleto_format_digits:
  "onlyNumbers (JString (boleto_format s)) = take 47 (onlyNumbers (JString s))"
  unfolding boleto_format_def Let_def boleto_LENGTH_def
  by (rule trans [OF format_fold_digits [of "boleto_format_step _", OF boleto_format_step_digits]])
    (simp_all add: list_all_take onlyNumbers_digits)

lemma pj_format_digits:
  "onlyNumbers (JString (pj_format s)) = take 20 (onlyNumbers (JString s))"
  unfolding pj_format_def Let_def pj_LENGTH_def
  by (rule trans [OF format_fold_digits [of "pj_format_step _", OF pj_format_step_digits]])
    (simp_all add: list_all_take onlyNumbers_digits)

text \<open>
  Claim C4. For every input (and pad option where supported), stripping all characters
  that are not digits from the output of \<open>format\<close> (CPF, CNPJ, CEP, boleto, judicial
  process) yields exactly the digit sequence of the input, after the optional left-padding
  with zeros, truncated to the fixed length of the identifier.
\<close>

theorem format_strip_round_trip:
  "onlyNumbers (JString (cpf_format v options)) =
     take 11 (if pad options = Some True then padStart (onlyNumbers v) 11 (CHR ''0'')
              else onlyNumbers v) \<and>
   onlyNumbers (JString (cnpj_format v options)) =
     take 14 (if pad options = Some True then padStart (onlyNumbers v) 14 (CHR ''0'')
              else onlyNumbers v) \<and>
   onlyNumbers (JString (cep_format s)) = take 8 (onlyNumbers (JString s)) \<and>
   onlyNumbers (JString (boleto_format s)) = take 47 (onlyNumbers (JString s)) \<and>
   onlyNumbers (JString (pj_format s)) = take 20 (onlyNumbers (JString s))"
  by (simp only: cpf_format_digits cnpj_format_digits cep_format_digits boleto_format_digits
      pj_format_digits simp_thms)

subsection \<open>Generators\<close>

text \<open>
  Claim C1 says that for every sequence of random digit draws the string returned by
  \<open>cpf.generate\<close> and by \<open>cnpj.generate\<close> satisfies the corresponding \<open>isValid\<close>. The
  generators compute correct check digits but never look at the reserved numbers: when
  every draw is 0 (or, for CPF, every draw is the same digit) the result is a reserved
  number, which \<open>isValid\<close> rejects.
\<close>

theorem generate_reserved_number:
  "cpf_generate t None (\<lambda>k. 0) = Inr ''00000000000'' \<and>
   \<not> cpf_isValid (JString ''00000000000'') \<and>
   cpf_generate t None (\<lambda>k. 7) = Inr ''77777777777'' \<and>
   \<not> cpf_isValid (JString ''77777777777'') \<and>
   cnpj_generate (\<lambda>k. 0) = ''00000000000000'' \<and>
   \<not> cnpj_isValid (JString ''00000000000000'')"
proof -
  have a: "cpf_generate t None (\<lambda>k. 0) = Inr ''00000000000''" by code_simp
  have b: "\<not> cpf_isValid (JString ''00000000000'')" by code_simp
  have c: "cpf_generate t None (\<lambda>k. 7) = Inr ''77777777777''" by code_simp
  have d: "\<not> cpf_isValid (JString ''77777777777'')" by code_simp
  have e: "cnpj_generate (\<lambda>k. 0) = ''00000000000000''" by code_simp
  have f: "\<not> cnpj_isValid (JString ''00000000000000'')" by code_simp
  from a b c d e f show ?thesis by blast
qed

theorem generate_reserved_number_witness:
  "cpf_generate example_tables None (\<lambda>k. 0) = Inr ''00000000000'' \<and>
   \<not> cpf_isValid (JString ''00000000000'') \<and>
   cnpj_generate (\<lambda>k. 0) = ''00000000000000'' \<and>
   \<not> cnpj_isValid (JString ''00000000000000'')"
  using generate_reserved_number [of example_tables] by blast

subsection \<open>The positional formatter of the judicial process number\<close>

text \<open>
  Claim C3 says that each positional formatter leaves a separator out exactly when its
  index is the last character of the truncated digit string. The judicial process
  formatter asks \<open>isLastChar\<close> about its raw argument instead of the digit string: for the
  input \<open>1234567-89\<close> the digit string is \<open>123456789\<close>, index 8 is its last character, and
  the formatter still appends the dot, where the formatter of section 4.2 does not.
\<close>

theorem pj_format_trailing_separator:
  "pj_format ''1234567-89'' = ''1234567-89.'' \<and>
   onlyNumbers (JString ''1234567-89'') = ''123456789'' \<and>
   positional_format pj_rules pj_LENGTH (onlyNumbers (JString ''1234567-89'')) = ''1234567-89''"
proof -
  have a: "pj_format ''1234567-89'' = ''1234567-89.''" by code_simp
  have b: "onlyNumbers (JString ''1234567-89'') = ''123456789''" by code_simp
  have c: "positional_format pj_rules pj_LENGTH (onlyNumbers (JString ''1234567-89'')) = ''1234567-89''"
    by code_simp
  from a b c show ?thesis by blast
qed

subsection \<open>Capitalize and the default acronyms\<close>

text \<open>
  Claim C7 says that a token matching the uppercase list is rendered fully uppercase, in
  particular for the default acronym list. \<open>capitalize\<close> looks the upper-cased token up in
  the list, and the entries of \<open>ACRONYMS\<close> are lower-case, so no token ever matches the
  default list: \<open>cpf\<close> is an entry of \<open>ACRONYMS\<close> and is rendered \<open>Cpf\<close>.
\<close>

theorem capitalize_default_acronym:
  "capitalize (JString ''cpf'') \<lparr>lowerCaseWords = None, upperCaseWords = None\<rparr> = Inr ''Cpf'' \<and>
   ''cpf'' \<in> set ACRONYMS \<and>
   capitalize (JString ''joao da silva ltda'') \<lparr>lowerCaseWords = None, upperCaseWords = None\<rparr>
     = Inr ''Joao da Silva Ltda''"
proof -
  have a: "capitalize (JString ''cpf'') \<lparr>lowerCaseWords = None, upperCaseWords = None\<rparr> = Inr ''Cpf''"
    by code_simp
  have b: "''cpf'' \<in> set ACRONYMS" by code_simp
  have c: "capitalize (JString ''joao da silva ltda'') \<lparr>lowerCaseWords = None, upperCaseWords = None\<rparr>
     = Inr ''Joao da Silva Ltda''" by code_simp
  from a b c show ?thesis by blast
qed

subsection \<open>getCities and the city table\<close>

text \<open>
  Claim C2 says that no public operation mutates the reference tables. \<open>getCities\<close> with a
  known state sorts the array stored in \<open>CITIES_DATA\<close> in place: in the example tables the
  entry of \<open>AC\<close> is in another order after the call.
\<close>

theorem getCities_sorts_table_in_place:
  "map_of (CITIES_DATA example_tables) ''AC'' = Some [''rio branco'', ''acrelandia''] \<and>
   fst (getCities code_compare example_tables (Some ''AC'')) = Inr [''acrelandia'', ''rio branco''] \<and>
   map_of (CITIES_DATA (snd (getCities code_compare example_tables (Some ''AC'')))) ''AC''
     = Some [''acrelandia'', ''rio branco''] \<and>
   snd (getCities code_compare example_tables (Some ''AC'')) \<noteq> example_tables"
proof -
  have a: "map_of (CITIES_DATA example_tables) ''AC'' = Some [''rio branco'', ''acrelandia'']"
    by code_simp
  have b: "fst (getCities code_compare example_tables (Some ''AC'')) = Inr [''acrelandia'', ''rio branco'']"
    by code_simp
  have c: "map_of (CITIES_DATA (snd (getCities code_compare example_tables (Some ''AC'')))) ''AC''
     = Some [''acrelandia'', ''rio branco'']"
    by code_simp
  from a c have "snd (getCities code_compare example_tables (Some ''AC'')) \<noteq> example_tables"
    by auto
  with a b c show ?thesis by blast
qed

subsection \<open>Which operations can throw\<close>








lemma set_js_insert: "set (js_insert cmp x xs) = insert x (set xs)"
  by (induction xs) auto























subsection \<open>The other formatters are positional formatters\<close>

lemma foldl_append_step:
  assumes "\<And>acc p. step acc p = acc @ g p"
  shows "foldl step acc ps = acc @ concat (map g ps)"
  by (induction ps arbitrary: acc) (simp_all add: assms)

lemma positional_formatI:
  assumes step: "\<And>acc p. step acc p = acc @ g p"
    and piece: "\<And>i c. i < length (take len digits) \<Longrightarrow>
       g (i, c) = (case map_of rules i of
                     None \<Rightarrow> [c]
                   | Some sep \<Rightarrow> if Suc i = length (take len digits) then [c] else [c, sep])"
  shows "foldl step [] (enumerate 0 (take len digits)) = positional_format rules len digits"
proof -
  have "map g (enumerate 0 (take len digits)) =
        map (\<lambda>p. case map_of rules (fst p) of
                     None \<Rightarrow> [snd p]
                   | Some sep \<Rightarrow> if Suc (fst p) = length (take len digits) then [snd p]
                                else [snd p, sep])
          (enumerate 0 (take len digits))"
  proof (rule map_cong [OF refl])
    fix p assume "p \<in> set (enumerate 0 (take len digits))"
    then have "(fst p, snd p) \<in> set (enumerate 0 (take len digits))" by simp
    then have "fst p < length (take len digits)"
      by (simp only: in_set_enumerate_eq) simp
    from piece [OF this, of "snd p"] show "g p = (case map_of rules (fst p) of
                     None \<Rightarrow> [snd p]
                   | Some sep \<Rightarrow> if Suc (fst p) = length (take len digits) then [snd p]
                                else [snd p, sep])" by simp
  qed
  then show ?thesis
    unfolding positional_format_def Let_def foldl_append_step [of step g, OF step]
    by (simp only: append_Nil)
qed

lemma isLastChar_Suc: "isLastChar i s = (Suc i = length s)"
  by (auto simp add: isLastChar_def)

text \<open>
  The CPF formatter is the positional formatter of section 4.2 on the digit string (after
  the optional padding): a dot after indexes 2 and 5, a hyphen after index 8, none after
  the last character of the truncated digit string.
\<close>

theorem cpf_format_positional:
  "cpf_format v options =
     positional_format cpf_rules cpf_LENGTH
       (if pad options = Some True then padStart (onlyNumbers v) cpf_LENGTH (CHR ''0'')
        else onlyNumbers v)"
proof -
  have "foldl (cpf_format_step digits) [] (enumerate 0 (take cpf_LENGTH digits)) =
        positional_format cpf_rules cpf_LENGTH digits" for digits
  proof (rule positional_formatI [where g = "(\<lambda>p. if \<not> isLastChar (fst p) digits then
        (if fst p \<in> set cpf_DOT_INDEXES then [snd p] @ ''.''
         else if fst p \<in> set cpf_HYPHEN_INDEXES then [snd p] @ ''-''
         else [snd p])
      else [snd p])"])
    show "cpf_format_step digits acc p = acc @ (\<lambda>p. if \<not> isLastChar (fst p) digits then
        (if fst p \<in> set cpf_DOT_INDEXES then [snd p] @ ''.''
         else if fst p \<in> set cpf_HYPHEN_INDEXES then [snd p] @ ''-''
         else [snd p])
      else [snd p]) p" for acc p
      by (simp add: cpf_format_step_def Let_def)
    show "(\<lambda>p. if \<not> isLastChar (fst p) digits then
        (if fst p \<in> set cpf_DOT_INDEXES then [snd p] @ ''.''
         else if fst p \<in> set cpf_HYPHEN_INDEXES then [snd p] @ ''-''
         else [snd p])
      else [snd p]) (i, c) =
           (case map_of cpf_rules i of
              None \<Rightarrow> [c]
            | Some sep \<Rightarrow> if Suc i = length (take cpf_LENGTH digits) then [c] else [c, sep])"
      if "i < length (take cpf_LENGTH digits)" for i c
      using that
      by (auto simp add: cpf_rules_def with_separator_def cpf_DOT_INDEXES_def cpf_HYPHEN_INDEXES_def cpf_LENGTH_def
          isLastChar_Suc min_def)
  qed
  then show ?thesis by (simp add: cpf_format_def Let_def)
qed

text \<open>
  The CNPJ formatter is the positional formatter of section 4.2 on the digit string (after
  the optional padding).
\<close>

theorem cnpj_format_positional:
  "cnpj_format v options =
     positional_format cnpj_rules cnpj_LENGTH
       (if pad options = Some True then padStart (onlyNumbers v) cnpj_LENGTH (CHR ''0'')
        else onlyNumbers v)"
proof -
  have "foldl (cnpj_format_step digits) [] (enumerate 0 (take cnpj_LENGTH digits)) =
        positional_format cnpj_rules cnpj_LENGTH digits" for digits
  proof (rule positional_formatI [where g = "(\<lambda>p. if \<not> isLastChar (fst p) digits then
        (if fst p \<in> set cnpj_DOT_INDEXES then [snd p] @ ''.''
         else if fst p \<in> set cnpj_SLASH_INDEXES then [snd p] @ ''/''
         else if fst p \<in> set cnpj_HYPHEN_INDEXES then [snd p] @ ''-''
         else [snd p])
      else [snd p])"])
    show "cnpj_format_step digits acc p = acc @ (\<lambda>p. if \<not> isLastChar (fst p) digits then
        (if fst p \<in> set cnpj_DOT_INDEXES then [snd p] @ ''.''
         else if fst p \<in> set cnpj_SLASH_INDEXES then [snd p] @ ''/''
         else if fst p \<in> set cnpj_HYPHEN_INDEXES then [snd p] @ ''-''
         else [snd p])
      else [snd p]) p" for acc p
      by (simp add: cnpj_format_step_def Let_def)
    show "(\<lambda>p. if \<not> isLastChar (fst p) digits then
        (if fst p \<in> set cnpj_DOT_INDEXES then [snd p] @ ''.''
         else if fst p \<in> set cnpj_SLASH_INDEXES then [snd p] @ ''/''
         else if fst p \<in> set cnpj_HYPHEN_INDEXES then [snd p] @ ''-''
         else [snd p])
      else [snd p]) (i, c) =
           (case map_of cnpj_rules i of
              None \<Rightarrow> [c]
            | Some sep \<Rightarrow> if Suc i = length (take cnpj_LENGTH digits) then [c] else [c, sep])"
      if "i < length (take cnpj_LENGTH digits)" for i c
      using that
      by (auto simp add: cnpj_rules_def with_separator_def cnpj_DOT_INDEXES_def cnpj_SLASH_INDEXES_def cnpj_HYPHEN_INDEXES_def cnpj_LENGTH_def
          isLastChar_Suc min_def)
  qed
  then show ?thesis by (simp add: cnpj_format_def Let_def)
qed

text \<open>
  The CEP formatter is the positional formatter of section 4.2 on the digit string.
\<close>

theorem cep_format_positional:
  "cep_format s =
     positional_format cep_rules cep_LENGTH
       (onlyNumbers (JString s))"
proof -
  have "foldl (cep_format_step digits) [] (enumerate 0 (take cep_LENGTH digits)) =
        positional_format cep_rules cep_LENGTH digits" for digits
  proof (rule positional_formatI [where g = "(\<lambda>p. if \<not> isLastChar (fst p) digits then
        (if fst p \<in> set cep_HYPHEN_INDEXES then [snd p] @ ''-''
         else [snd p])
      else [snd p])"])
    show "cep_format_step digits acc p = acc @ (\<lambda>p. if \<not> isLastChar (fst p) digits then
        (if fst p \<in> set cep_HYPHEN_INDEXES then [snd p] @ ''-''
         else [snd p])
      else [snd p]) p" for acc p
      by (simp add: cep_format_step_def Let_def)
    show "(\<lambda>p. if \<not> isLastChar (fst p) digits then
        (if fst p \<in> set cep_HYPHEN_INDEXES then [snd p] @ ''-''
         else [snd p])
      else [snd p]) (i, c) =
           (case map_of cep_rules i of
              None \<Rightarrow> [c]
            | Some sep \<Rightarrow> if Suc i = length (take cep_LENGTH digits) then [c] else [c, sep])"
      if "i < length (take cep_LENGTH digits)" for i c
      using that
      by (auto simp add: cep_rules_def with_separator_def cep_HYPHEN_INDEXES_def cep_LENGTH_def
          isLastChar_Suc min_def)
  qed
  then show ?thesis by (simp add: cep_format_def Let_def)
qed

text \<open>
  The boleto formatter is the positional formatter of section 4.2 on the digit string.
\<close>

theorem boleto_format_positional:
  "boleto_format s =
     positional_format boleto_rules boleto_LENGTH
       (onlyNumbers (JString s))"
proof -
  have "foldl (boleto_format_step digits) [] (enumerate 0 (take boleto_LENGTH digits)) =
        positional_format boleto_rules boleto_LENGTH digits" for digits
  proof (rule positional_formatI [where g = "(\<lambda>p. if \<not> isLastChar (fst p) digits then
        (if fst p \<in> set boleto_DOT_INDEXES then [snd p] @ ''.''
         else if fst p \<in> set boleto_SPACE_INDEXES then [snd p] @ '' ''
         else [snd p])
      else [snd p])"])
    show "boleto_format_step digits acc p = acc @ (\<lambda>p. if \<not> isLastChar (fst p) digits then
        (if fst p \<in> set boleto_DOT_INDEXES then [snd p] @ ''.''
         else if fst p \<in> set boleto_SPACE_INDEXES then [snd p] @ '' ''
         else [snd p])
      else [snd p]) p" for acc p
      by (simp add: boleto_format_step_def Let_def)
    show "(\<lambda>p. if \<not> isLastChar (fst p) digits then
        (if fst p \<in> set boleto_DOT_INDEXES then [snd p] @ ''.''
         else if fst p \<in> set boleto_SPACE_INDEXES then [snd p] @ '' ''
         else [snd p])
      else [snd p]) (i, c) =
           (case map_of boleto_rules i of
              None \<Rightarrow> [c]
            | Some sep \<Rightarrow> if Suc i = length (take boleto_LENGTH digits) then [c] else [c, sep])"
      if "i < length (take boleto_LENGTH digits)" for i c
      using that
      by (auto simp add: boleto_rules_def with_separator_def boleto_DOT_INDEXES_def boleto_SPACE_INDEXES_def boleto_LENGTH_def
          isLastChar_Suc min_def)
  qed
  then show ?thesis by (simp add: boleto_format_def Let_def)
qed

lemma filter_digits_id: "list_all is_digit s \<Longrightarrow> filter is_digit s = s"
  by (simp add: list_all_iff)

text \<open>
  On an argument that holds digits only, the judicial process formatter is the positional
  formatter of section 4.2: the raw argument and the digit string are then the same.
\<close>

theorem pj_format_positional_digits:
  assumes "list_all is_digit s"
  shows "pj_format s = positional_format pj_rules pj_LENGTH s"
proof -
  have "foldl (pj_format_step s) [] (enumerate 0 (take pj_LENGTH s)) =
        positional_format pj_rules pj_LENGTH s"
  proof (rule positional_formatI [where g = "(\<lambda>p. if \<not> isLastChar (fst p) s then
        (if fst p \<in> set pj_DOT_INDEXES then [snd p] @ ''.''
         else if fst p \<in> set pj_HYPHEN_INDEXES then [snd p] @ ''-''
         else [snd p])
      else [snd p])"])
    show "pj_format_step s acc p = acc @ (\<lambda>p. if \<not> isLastChar (fst p) s then
        (if fst p \<in> set pj_DOT_INDEXES then [snd p] @ ''.''
         else if fst p \<in> set pj_HYPHEN_INDEXES then [snd p] @ ''-''
         else [snd p])
      else [snd p]) p" for acc p
      by (simp add: pj_format_step_def Let_def)
    show "(\<lambda>p. if \<not> isLastChar (fst p) s then
        (if fst p \<in> set pj_DOT_INDEXES then [snd p] @ ''.''
         else if fst p \<in> set pj_HYPHEN_INDEXES then [snd p] @ ''-''
         else [snd p])
      else [snd p]) (i, c) =
           (case map_of pj_rules i of
              None \<Rightarrow> [c]
            | Some sep \<Rightarrow> if Suc i = length (take pj_LENGTH s) then [c] else [c, sep])"
      if "i < length (take pj_LENGTH s)" for i c
      using that
      by (auto simp add: pj_rules_def with_separator_def pj_DOT_INDEXES_def pj_HYPHEN_INDEXES_def
          pj_LENGTH_def isLastChar_Suc min_def)
  qed
  then show ?thesis
    by (simp add: pj_format_def Let_def onlyNumbers_def filter_digits_id [OF assms])
qed

theorem pj_format_positional_digits_witness:
  "list_all is_digit ''123456789'' \<and> pj_format ''123456789'' = ''1234567-89'' \<and>
   positional_format pj_rules pj_LENGTH ''123456789'' = ''1234567-89''"
proof -
  have h: "list_all is_digit ''123456789''" by (simp add: is_digit_def)
  have c: "pj_format ''123456789'' = ''1234567-89''" by code_simp
  from pj_format_positional_digits [OF h] h c show ?thesis by simp
qed

subsection \<open>Generated numbers are valid unless reserved\<close>

lemma is_digit_digit_char: "is_digit (digit_char d)"
proof -
  have "d mod 10 \<in> {0, 1, 2, 3, 4, 5, 6, 7, 8, 9}" by (simp; presburger)
  then show ?thesis
    unfolding is_digit_def digit_char_def by auto
qed

lemma show_int_digit: "0 \<le> k \<Longrightarrow> k < 10 \<Longrightarrow> show_int k = [digit_char (nat k)]"
  by (simp add: show_int_def show_nat.simps)

lemma check_digit_string_digit:
  assumes "0 \<le> c"
  obtains k where "check_digit_string (Some c) = [digit_char k]"
proof -
  have m: "js_rem c 11 = c mod 11" using js_rem_nonneg [OF assms, of 11] by simp
  have "0 \<le> c mod 11" "c mod 11 < 11" by simp_all
  then have "check_digit_string (Some c) =
      [digit_char (nat (if c mod 11 < 2 then 0 else 11 - c mod 11))]"
    by (simp add: check_digit_string_def m Let_def show_int_digit)
  then show ?thesis by (rule that)
qed

lemma foldl_checksum_scalar:
  "0 \<le> a \<Longrightarrow> int k + int (length xs) \<le> w \<Longrightarrow>
     \<exists>c. foldl (checksum_step (Scalar w)) (Some a) (enumerate k xs) = Some c \<and> 0 \<le> c"
proof (induction xs arbitrary: a k)
  case Nil
  then show ?case by simp
next
  case (Cons x xs)
  have "0 \<le> a + int (digit_val x) * (w - int k)"
    using Cons.prems by simp
  moreover have "int (Suc k) + int (length xs) \<le> w" using Cons.prems by simp
  ultimately show ?case
    using Cons.IH [of "a + int (digit_val x) * (w - int k)" "Suc k"]
    by (simp add: checksum_step_def)
qed

lemma foldl_checksum_table:
  "0 \<le> a \<Longrightarrow> k + length xs \<le> length ws \<Longrightarrow> list_all (\<lambda>w. 0 \<le> w) ws \<Longrightarrow>
     \<exists>c. foldl (checksum_step (Table ws)) (Some a) (enumerate k xs) = Some c \<and> 0 \<le> c"
proof (induction xs arbitrary: a k)
  case Nil
  then show ?case by simp
next
  case (Cons x xs)
  have "0 \<le> ws ! k" using Cons.prems by (simp add: list_all_length)
  then have "0 \<le> a + int (digit_val x) * ws ! k"
    using Cons.prems by simp
  moreover have "Suc k + length xs \<le> length ws" using Cons.prems by simp
  ultimately show ?case
    using Cons.IH [of "a + int (digit_val x) * ws ! k" "Suc k"] Cons.prems
    by (simp add: checksum_step_def)
qed

lemma length_onlyNumbers: "length (onlyNumbers (JString b)) \<le> length b"
  by (simp add: onlyNumbers_def)

lemma generateChecksum_scalar_digit:
  assumes "int (length b) \<le> w"
  obtains k where "check_digit_string (generateChecksum b (Scalar w)) = [digit_char k]"
proof -
  have "int 0 + int (length (onlyNumbers (JString b))) \<le> w"
    using assms length_onlyNumbers [of b] by simp
  from foldl_checksum_scalar [OF _ this, of 0]
  obtain c where "generateChecksum b (Scalar w) = Some c" "0 \<le> c"
    by (auto simp add: generateChecksum_def)
  then show ?thesis
    using check_digit_string_digit [of c] that by metis
qed

lemma generateChecksum_table_digit:
  assumes "length b \<le> length ws" and "list_all (\<lambda>w. 0 \<le> w) ws"
  obtains k where "check_digit_string (generateChecksum b (Table ws)) = [digit_char k]"
proof -
  have "0 + length (onlyNumbers (JString b)) \<le> length ws"
    using assms(1) length_onlyNumbers [of b] by simp
  from foldl_checksum_table [OF _ this assms(2), of 0]
  obtain c where "generateChecksum b (Table ws) = Some c" "0 \<le> c"
    by (auto simp add: generateChecksum_def)
  then show ?thesis
    using check_digit_string_digit [of c] that by metis
qed

lemma foldl_snoc_id: "foldl (\<lambda>acc digit. acc @ [digit]) acc xs = acc @ xs"
  by (induction xs arbitrary: acc) simp_all

lemma nullable_rx_digit: "\<not> nullable rx_digit"
  by (simp add: rx_digit_def)

lemma deriv_opt_sep:
  "is_digit c \<Longrightarrow> deriv c (Opt (Chars ''.'')) = Alt Zero Zero"
  "is_digit c \<Longrightarrow> deriv c (Opt (Chars ''-'')) = Alt Zero Zero"
  "is_digit c \<Longrightarrow> deriv c (Opt (Chars ''/'')) = Alt Zero Zero"
  by (auto simp add: Opt_def is_digit_def)

lemma nullable_Opt: "nullable (Opt r)"
  by (simp add: Opt_def)

lemma cpf_isValidFormat_11:
  assumes "list_all is_digit s" "length s = 11"
  shows "cpf_isValidFormat s"
proof -
  from assms(2) obtain a0 a1 a2 a3 a4 a5 a6 a7 a8 a9 a10
    where s: "s = [a0, a1, a2, a3, a4, a5, a6, a7, a8, a9, a10]" by (rule length_11)
  from assms(1) show ?thesis
    unfolding s cpf_isValidFormat_def rx_test_def cpf_format_rx_def Seqs_def
    by (simp add: deriv_digit nullable_rx_digit deriv_opt_sep nullable_Opt)
qed

lemma length_14:
  assumes "length (s :: 'a list) = 14"
  obtains a0 a1 a2 a3 a4 a5 a6 a7 a8 a9 a10 a11 a12 a13
  where "s = [a0, a1, a2, a3, a4, a5, a6, a7, a8, a9, a10, a11, a12, a13]"
  using assms by (auto simp add: eval_nat_numeral length_Suc_conv)

lemma cnpj_isValidFormat_14:
  assumes "list_all is_digit s" "length s = 14"
  shows "cnpj_isValidFormat s"
proof -
  from assms(2) obtain a0 a1 a2 a3 a4 a5 a6 a7 a8 a9 a10 a11 a12 a13
    where s: "s = [a0, a1, a2, a3, a4, a5, a6, a7, a8, a9, a10, a11, a12, a13]" by (rule length_14)
  from assms(1) show ?thesis
    unfolding s cnpj_isValidFormat_def rx_test_def cnpj_format_rx_def Seqs_def
    by (simp add: deriv_digit nullable_rx_digit deriv_opt_sep nullable_Opt)
qed


lemma onlyNumbers_digit_string: "list_all is_digit s \<Longrightarrow> onlyNumbers (JString s) = s"
  by (simp add: onlyNumbers_def list_all_iff)

lemma cpf_finish_valid:
  assumes "list_all is_digit b" and "length b = 9"
  shows "cpf_isValid (JString (cpf_finish b)) = (\<not> cpf_isReservedNumber (cpf_finish b))"
proof -
  obtain k1 where d1: "check_digit_string (generateChecksum b (Scalar 10)) = [digit_char k1]"
    using assms(2) by (auto intro: generateChecksum_scalar_digit [of b 10])
  obtain k2 where d2:
    "check_digit_string (generateChecksum (b @ [digit_char k1]) (Scalar 11)) = [digit_char k2]"
    using assms(2) by (auto intro: generateChecksum_scalar_digit [of "b @ [digit_char k1]" 11])
  have fin: "cpf_finish b = b @ [digit_char k1, digit_char k2]"
    by (simp add: cpf_finish_def Let_def d1 d2)
  have dig: "list_all is_digit (b @ [digit_char k1, digit_char k2])"
    using assms(1) by (simp add: is_digit_digit_char)
  have len: "length (b @ [digit_char k1, digit_char k2]) = 11"
    using assms(2) by simp
  have fmt: "cpf_isValidFormat (b @ [digit_char k1, digit_char k2])"
    using dig len by (rule cpf_isValidFormat_11)
  have chk: "cpf_isValidChecksum (b @ [digit_char k1, digit_char k2])"
    using assms(2)
    by (simp add: cpf_isValidChecksum_def cpf_CHECK_DIGITS_INDEXES_def index_char_def
        foldl_snoc_id nth_append d1 d2)
  show ?thesis
    unfolding fin
    using fmt chk by (simp add: cpf_isValid_def onlyNumbers_digit_string [OF dig])
qed

lemma generateRandomNumber_digits:
  "list_all is_digit (fst (generateRandomNumber n rnd k)) \<and>
   length (fst (generateRandomNumber n rnd k)) = n"
  by (simp add: generateRandomNumber_def list_all_iff is_digit_digit_char)

lemma show_nat_digit: "n < 10 \<Longrightarrow> show_nat n = [digit_char n]"
  by (simp add: show_nat.simps)

text \<open>
  With state codes of one digit, whatever the random draws and the state argument, the
  string that \<open>cpf.generate\<close> returns has the right format and correct check digits: it
  satisfies \<open>isValid\<close> unless it is one of the reserved numbers.
\<close>

theorem cpf_generate_valid_unless_reserved:
  assumes "cpf_generate t st rnd = Inr s"
    and "list_all (\<lambda>p. numeric_code (snd p) < 10) (STATES_DATA t)"
  shows "cpf_isValid (JString s) = (\<not> cpf_isReservedNumber s)"
proof -
  have "\<exists>b. list_all is_digit b \<and> length b = 9 \<and> s = cpf_finish b"
  proof (cases "\<exists>c. st = Some c \<and> c \<noteq> [] \<and> c \<in> set (STATES t)")
    case True
    then obtain c where c: "st = Some c" "c \<noteq> []" "c \<in> set (STATES t)" by blast
    with assms(1) obtain d where d: "map_of (STATES_DATA t) c = Some d"
      and s: "s = cpf_finish (fst (generateRandomNumber (cpf_LENGTH - 3) rnd 0) @
                              show_nat (numeric_code d))"
      by (auto simp add: cpf_generate_def split: option.splits)
    from d have "(c, d) \<in> set (STATES_DATA t)" by (rule map_of_SomeD)
    with assms(2) have "numeric_code d < 10" by (auto simp add: list_all_iff)
    then have "show_nat (numeric_code d) = [digit_char (numeric_code d)]"
      by (rule show_nat_digit)
    with s show ?thesis
      using generateRandomNumber_digits [of 8 rnd 0]
      by (intro exI [of _ "fst (generateRandomNumber 8 rnd 0) @ [digit_char (numeric_code d)]"])
        (simp add: cpf_LENGTH_def is_digit_digit_char)
  next
    case False
    with assms(1) have "s = cpf_finish
        (fst (generateRandomNumber (cpf_LENGTH - 3) rnd (snd (generateRandomNumber 1 rnd 0))) @
         fst (generateRandomNumber 1 rnd 0))"
      by (cases st) (auto simp add: cpf_generate_def Let_def split: if_splits)
    then show ?thesis
      using generateRandomNumber_digits [of 8 rnd "snd (generateRandomNumber 1 rnd 0)"]
        generateRandomNumber_digits [of 1 rnd 0]
      by (intro exI [of _ "fst (generateRandomNumber 8 rnd (snd (generateRandomNumber 1 rnd 0))) @
         fst (generateRandomNumber 1 rnd 0)"]) (simp add: cpf_LENGTH_def)
  qed
  then show ?thesis using cpf_finish_valid by blast
qed

theorem cpf_generate_valid_unless_reserved_witness:
  "cpf_generate example_tables (Some ''SP'') (\<lambda>k. k) = Inr ''01234567890'' \<and>
   list_all (\<lambda>p. numeric_code (snd p) < 10) (STATES_DATA example_tables) \<and>
   \<not> cpf_isReservedNumber ''01234567890'' \<and> cpf_isValid (JString ''01234567890'')"
proof -
  have h1: "cpf_generate example_tables (Some ''SP'') (\<lambda>k. k) = Inr ''01234567890''"
    by code_simp
  have h2: "list_all (\<lambda>p. numeric_code (snd p) < 10) (STATES_DATA example_tables)"
    by code_simp
  have r: "\<not> cpf_isReservedNumber ''01234567890''" by code_simp
  from cpf_generate_valid_unless_reserved [OF h1 h2] h1 h2 r show ?thesis by simp
qed

lemma nonneg_weights:
  "list_all (\<lambda>w. 0 \<le> w) FIRST_CHECK_DIGIT_WEIGHTS"
  "list_all (\<lambda>w. 0 \<le> w) SECOND_CHECK_DIGIT_WEIGHTS"
  by (simp_all add: FIRST_CHECK_DIGIT_WEIGHTS_def SECOND_CHECK_DIGIT_WEIGHTS_def)

text \<open>
  Whatever the random draws, the string that \<open>cnpj.generate\<close> returns has the right
  format and correct check digits: it satisfies \<open>isValid\<close> unless it is a reserved number.
\<close>

theorem cnpj_generate_valid_unless_reserved:
  "cnpj_isValid (JString (cnpj_generate rnd)) = (\<not> cnpj_isReservedNumber (cnpj_generate rnd))"
proof -
  define b where "b = fst (generateRandomNumber (cnpj_LENGTH - 2) rnd 0)"
  have b: "list_all is_digit b" "length b = 12"
    using generateRandomNumber_digits [of 12 rnd 0] by (simp_all add: b_def cnpj_LENGTH_def)
  obtain k1 where d1:
    "check_digit_string (generateChecksum b (Table FIRST_CHECK_DIGIT_WEIGHTS)) = [digit_char k1]"
    using b(2) nonneg_weights(1)
    by (auto intro: generateChecksum_table_digit [of b FIRST_CHECK_DIGIT_WEIGHTS]
        simp add: FIRST_CHECK_DIGIT_WEIGHTS_def)
  obtain k2 where d2:
    "check_digit_string (generateChecksum (b @ [digit_char k1]) (Table SECOND_CHECK_DIGIT_WEIGHTS))
       = [digit_char k2]"
    using b(2) nonneg_weights(2)
    by (auto intro: generateChecksum_table_digit [of "b @ [digit_char k1]" SECOND_CHECK_DIGIT_WEIGHTS]
        simp add: FIRST_CHECK_DIGIT_WEIGHTS_def SECOND_CHECK_DIGIT_WEIGHTS_def)
  have gen: "cnpj_generate rnd = b @ [digit_char k1, digit_char k2]"
    by (simp add: cnpj_generate_def Let_def b_def [symmetric] d1 d2)
  have dig: "list_all is_digit (b @ [digit_char k1, digit_char k2])"
    using b(1) by (simp add: is_digit_digit_char)
  have len: "length (b @ [digit_char k1, digit_char k2]) = 14"
    using b(2) by simp
  have fmt: "cnpj_isValidFormat (b @ [digit_char k1, digit_char k2])"
    using dig len by (rule cnpj_isValidFormat_14)
  have second: "6 # FIRST_CHECK_DIGIT_WEIGHTS = SECOND_CHECK_DIGIT_WEIGHTS"
    by (simp add: SECOND_CHECK_DIGIT_WEIGHTS_def)
  have chk: "cnpj_isValidChecksum (b @ [digit_char k1, digit_char k2])"
    using b(2)
    by (simp add: cnpj_isValidChecksum_def cnpj_CHECK_DIGITS_INDEXES_def index_char_def
        foldl_snoc_id nth_append d1 d2 second)
  show ?thesis
    unfolding gen
    using fmt chk by (simp add: cnpj_isValid_def onlyNumbers_digit_string [OF dig])
qed

subsection \<open>The default acronym list is never matched\<close>

lemma upper_char_not_lower:
  "upper_char x \<notin> set ''abcdefghijklmnopqrstuvwxyz''"
  by (simp add: upper_char_def)

lemma toLocaleUpperCase_hd:
  "toLocaleUpperCase w = c # cs \<Longrightarrow> c \<notin> set ''abcdefghijklmnopqrstuvwxyz''"
  using upper_char_not_lower by (cases w) (auto simp add: toLocaleUpperCase_def simp del: set_simps)

text \<open>
  No upper-cased token is an entry of the default list \<open>ACRONYMS\<close>: with the default
  options the branch of \<open>capitalize\<close> that renders a token fully uppercase is never taken.
\<close>

theorem default_acronyms_never_match: "toLocaleUpperCase w \<notin> set ACRONYMS"
proof
  assume "toLocaleUpperCase w \<in> set ACRONYMS"
  then obtain c cs where "toLocaleUpperCase w = c # cs" and "c \<in> set ''clmr''"
    by (auto simp add: ACRONYMS_def)
  with toLocaleUpperCase_hd [of w c cs] show False by auto
qed

subsection \<open>What the table operations change\<close>

text \<open>
  \<open>getStates\<close>, and \<open>getCities\<close> without a state, leave the tables as they are. \<open>getCities\<close>
  with a state changes at most one entry of \<open>CITIES_DATA\<close>, which it replaces by its sorted
  permutation; when every city list is already in the order of the comparator nothing
  changes.
\<close>

lemma mset_js_insert: "mset (js_insert cmp x xs) = add_mset x (mset xs)"
  by (induction xs) simp_all

lemma mset_js_sort: "mset (js_sort cmp xs) = mset xs"
  by (induction xs) (simp_all add: mset_js_insert)

lemma update_entry_same: "map_of al k = Some v \<Longrightarrow> update_entry k v al = al"
  by (induction al) (auto split: if_splits)

lemma getStates_tables: "snd (getStates cmp t) = t"
  by (simp add: getStates_def split: sum.splits)

lemma getCities_no_state_tables:
  "snd (getCities cmp t None) = t" "snd (getCities cmp t (Some [])) = t"
  by (simp_all add: getCities_def)

lemma getCities_tables:
  "snd (getCities cmp t st) = t \<or>
   (\<exists>c cities. map_of (CITIES_DATA t) c = Some cities \<and>
      snd (getCities cmp t st) =
        t\<lparr>CITIES_DATA := update_entry c (js_sort cmp cities) (CITIES_DATA t)\<rparr>)"
  by (auto simp add: getCities_def Let_def split: sum.splits option.splits)

theorem getCities_sorted_tables:
  assumes "list_all (\<lambda>p. js_sort cmp (snd p) = snd p) (CITIES_DATA t)"
  shows "snd (getCities cmp t st) = t"
proof -
  from getCities_tables [of cmp t st] show ?thesis
  proof
    assume "snd (getCities cmp t st) = t"
    then show ?thesis .
  next
    assume "\<exists>c cities. map_of (CITIES_DATA t) c = Some cities \<and>
      snd (getCities cmp t st) =
        t\<lparr>CITIES_DATA := update_entry c (js_sort cmp cities) (CITIES_DATA t)\<rparr>"
    then obtain c cities where m: "map_of (CITIES_DATA t) c = Some cities"
      and g: "snd (getCities cmp t st) =
        t\<lparr>CITIES_DATA := update_entry c (js_sort cmp cities) (CITIES_DATA t)\<rparr>"
      by blast
    from m have "(c, cities) \<in> set (CITIES_DATA t)" by (rule map_of_SomeD)
    with assms have "js_sort cmp cities = cities" by (auto simp add: list_all_iff)
    with m g show ?thesis by (simp add: update_entry_same)
  qed
qed

subsection \<open>Later results of the table operations\<close>

lemma sorted_js_insert:
  assumes "linear_comparator cmp" and "sorted_wrt (\<lambda>a b. cmp a b \<le> 0) xs"
  shows "sorted_wrt (\<lambda>a b. cmp a b \<le> 0) (js_insert cmp x xs)"
  using assms(2)
proof (induction xs)
  case Nil
  then show ?case by simp
next
  case (Cons y ys)
  show ?case
  proof (cases "cmp x y \<le> 0")
    case True
    have "cmp x z \<le> 0" if "z \<in> set ys" for z
      using assms(1) True Cons.prems that unfolding linear_comparator_def by (metis sorted_wrt.simps(2))
    with True Cons.prems show ?thesis by simp
  next
    case False
    then have "cmp y x \<le> 0" using assms(1) unfolding linear_comparator_def by blast
    with False Cons show ?thesis by (auto simp add: set_js_insert)
  qed
qed

lemma sorted_js_sort:
  "linear_comparator cmp \<Longrightarrow> sorted_wrt (\<lambda>a b. cmp a b \<le> 0) (js_sort cmp xs)"
  by (induction xs) (simp_all add: sorted_js_insert)

lemma sorted_unique:
  assumes "linear_comparator cmp"
  shows "sorted_wrt (\<lambda>a b. cmp a b \<le> 0) xs \<Longrightarrow> sorted_wrt (\<lambda>a b. cmp a b \<le> 0) ys \<Longrightarrow>
         mset xs = mset ys \<Longrightarrow> xs = ys"
proof (induction xs arbitrary: ys)
  case Nil
  then show ?case by simp
next
  case (Cons x xs)
  from Cons.prems(3) obtain y ys' where ys: "ys = y # ys'"
    by (cases ys) auto
  have refl: "cmp a a \<le> 0" for a using assms unfolding linear_comparator_def by blast
  have "x \<in> set ys" using Cons.prems(3) by (metis list.set_intros(1) set_mset_mset)
  then have yx: "cmp y x \<le> 0" using Cons.prems(2) refl unfolding ys by auto
  have "y \<in> set (x # xs)" using Cons.prems(3) unfolding ys by (metis list.set_intros(1) set_mset_mset)
  then have xy: "cmp x y \<le> 0" using Cons.prems(1) refl by auto
  from xy yx have eq: "x = y" using assms unfolding linear_comparator_def by blast
  with Cons.prems ys have "xs = ys'" by (intro Cons.IH) auto
  with eq ys show ?case by simp
qed

lemma js_sort_mset_cong:
  assumes "linear_comparator cmp" and "mset xs = mset ys"
  shows "js_sort cmp xs = js_sort cmp ys"
  using assms by (intro sorted_unique [OF assms(1)] sorted_js_sort) (simp_all add: mset_js_sort)

lemma js_sort_idem: "linear_comparator cmp \<Longrightarrow> js_sort cmp (js_sort cmp xs) = js_sort cmp xs"
  by (rule js_sort_mset_cong) (simp_all add: mset_js_sort)

lemma map_of_update_entry:
  "map_of al c = Some old \<Longrightarrow>
     map_of (update_entry c v al) k = (if k = c then Some v else map_of al k)"
  by (induction al) (auto split: if_splits)

lemma mset_concat_update_entry:
  "map_of al c = Some old \<Longrightarrow> mset v = mset old \<Longrightarrow>
     mset (concat (map snd (update_entry c v al))) = mset (concat (map snd al))"
  by (induction al) (auto split: if_splits)

lemma foldl_append_concat: "foldl (\<lambda>acc city. acc @ city) acc xs = acc @ concat xs"
  by (induction xs arbitrary: acc) simp_all

lemma getStates_cities_update:
  "fst (getStates cmp (t\<lparr>CITIES_DATA := al\<rparr>)) = fst (getStates cmp t)"
proof -
  have "map_states (t\<lparr>CITIES_DATA := al\<rparr>) cs = map_states t cs" for cs
    by (induction cs) (simp_all split: option.splits)
  then show ?thesis by (simp add: getStates_def split: sum.splits)
qed

lemma getCities_cities_update:
  assumes "linear_comparator cmp" and "map_of (CITIES_DATA t) c = Some cities"
  shows "fst (getCities cmp (t\<lparr>CITIES_DATA := update_entry c (js_sort cmp cities) (CITIES_DATA t)\<rparr>) st)
         = fst (getCities cmp t st)"
proof -
  let ?t' = "t\<lparr>CITIES_DATA := update_entry c (js_sort cmp cities) (CITIES_DATA t)\<rparr>"
  have all: "js_sort cmp (concat (map snd (CITIES_DATA ?t'))) =
             js_sort cmp (concat (map snd (CITIES_DATA t)))"
    using assms by (intro js_sort_mset_cong) (simp_all add: mset_concat_update_entry mset_js_sort)
  have one: "map_option (js_sort cmp) (map_of (CITIES_DATA ?t') k) =
             map_option (js_sort cmp) (map_of (CITIES_DATA t) k)" for k
    using assms by (simp add: map_of_update_entry js_sort_idem)
  show ?thesis
  proof (cases "st \<noteq> None \<and> st \<noteq> Some []")
    case False
    then show ?thesis using all by (auto simp add: getCities_def foldl_append_concat)
  next
    case True
    show ?thesis
    proof (cases "fst (getStates cmp t)")
      case (Inl e)
      then show ?thesis
        using True getStates_cities_update [where cmp = cmp and t = t] by (simp add: getCities_def)
    next
      case (Inr states)
      show ?thesis
      proof (cases "find (\<lambda>s. Some (name s) = st \<or> Some (code s) = st) states")
        case None
        then show ?thesis
          using True Inr getStates_cities_update [where cmp = cmp and t = t] by (simp add: getCities_def)
      next
        case (Some found)
        have lookup: "map_of (CITIES_DATA ?t') (code found) =
            (if code found = c then Some (js_sort cmp cities)
             else map_of (CITIES_DATA t) (code found))"
          using assms(2) by (simp add: map_of_update_entry)
        show ?thesis
        proof (cases "map_of (CITIES_DATA t) (code found)")
          case None
          with assms(2) have "code found \<noteq> c" by auto
          with None lookup show ?thesis
            using True Inr Some getStates_cities_update [where cmp = cmp and t = t]
            by (simp add: getCities_def)
        next
          case (Some cs)
          have "code found = c \<Longrightarrow> cs = cities" using Some assms(2) by simp
          with Some lookup show ?thesis
            using True Inr \<open>find _ states = Some found\<close>
              getStates_cities_update [where cmp = cmp and t = t] js_sort_idem [OF assms(1)]
            by (simp add: getCities_def Let_def)
        qed
      qed
    qed
  qed
qed

text \<open>
  With a linear comparator, what \<open>getStates\<close> and \<open>getCities\<close> return after a call of
  \<open>getCities\<close> is what they would have returned before it: the reordering of the stored
  list shows to readers of the table itself, not in later results.
\<close>

theorem later_results_unchanged:
  assumes "linear_comparator cmp"
  shows "fst (getStates cmp (snd (getCities cmp t st0))) = fst (getStates cmp t) \<and>
         fst (getCities cmp (snd (getCities cmp t st0)) st) = fst (getCities cmp t st)"
  using getCities_tables [of cmp t st0] getStates_cities_update [where cmp = cmp and t = t]
    getCities_cities_update [OF assms, of t _ _ st]
  by auto

lemma code_compare_total: "code_compare x y \<le> 0 \<or> code_compare y x \<le> 0"
  by (induction x y rule: code_compare.induct) auto

lemma code_compare_antisym: "code_compare x y \<le> 0 \<Longrightarrow> code_compare y x \<le> 0 \<Longrightarrow> x = y"
proof (induction x y rule: code_compare.induct)
  case (4 x xs y ys)
  then have "(of_char x :: nat) = of_char y" by (auto split: if_splits)
  then have "x = y" by simp
  with 4 show ?case by (auto split: if_splits)
qed simp_all

lemma code_compare_trans:
  "code_compare x y \<le> 0 \<Longrightarrow> code_compare y z \<le> 0 \<Longrightarrow> code_compare x z \<le> 0"
proof (induction x y arbitrary: z rule: code_compare.induct)
  case 1
  then show ?case by simp
next
  case (2 y ys)
  then show ?case by (cases z) simp_all
next
  case (3 x xs)
  then show ?case by simp
next
  case (4 x xs y ys)
  show ?case
  proof (cases z)
    case Nil
    with 4 show ?thesis by simp
  next
    case (Cons c cs)
    with "4.prems" "4.IH" [of cs] show ?thesis
      by (auto split: if_splits)
  qed
qed

lemma linear_comparator_code_compare: "linear_comparator code_compare"
  unfolding linear_comparator_def
  using code_compare_total code_compare_antisym code_compare_trans by blast

end
